theory Spec2Isabelle
  imports Main "HOL-Library.Log_Nat" "HOL-Library.List_Lexorder"
begin

section \<open>JavaScript strings\<close>

text \<open>
  Strings are modelled as lists of 8-bit characters, a character standing for the code
  unit of that number, and cover ASCII text. The string methods of the source
  (\<^verbatim>\<open>toLowerCase\<close>, \<^verbatim>\<open>trim\<close>, \<^verbatim>\<open>split\<close>, \<^verbatim>\<open>includes\<close>, \<^verbatim>\<open>substring\<close>) are written
  out on that representation; letters beyond ASCII are carried through unchanged.
\<close>

definition lower_char :: "char \<Rightarrow> char" where
  "lower_char c =
     (if 65 \<le> (of_char c :: nat) \<and> (of_char c :: nat) \<le> 90
      then char_of ((of_char c :: nat) + 32) else c)"

definition toLowerCase :: "string \<Rightarrow> string" where
  "toLowerCase s = map lower_char s"

text \<open>
  The white space that \<^verbatim>\<open>trim\<close> strips, among the code units below 256: tab, line feed,
  vertical tab, form feed, carriage return, space and no-break space.
\<close>

definition is_space :: "char \<Rightarrow> bool" where
  "is_space c =
     ((9 \<le> (of_char c :: nat) \<and> (of_char c :: nat) \<le> 13) \<or> (of_char c :: nat) = 32 \<or>
      (of_char c :: nat) = 160)"

definition newline :: char where
  "newline = char_of (10 :: nat)"

definition trim :: "string \<Rightarrow> string" where
  "trim s = rev (dropWhile is_space (rev (dropWhile is_space s)))"

text \<open>\<^verbatim>\<open>s.split(sep)\<close> for a one-character separator: always at least one piece.\<close>

fun split :: "char \<Rightarrow> string \<Rightarrow> string list" where
  "split sep [] = [[]]"
| "split sep (c # cs) =
     (if c = sep then [] # split sep cs
      else (case split sep cs of [] \<Rightarrow> [[c]] | p # ps \<Rightarrow> (c # p) # ps))"

fun starts_with :: "string \<Rightarrow> string \<Rightarrow> bool" where
  "starts_with s [] = True"
| "starts_with [] (k # ks) = False"
| "starts_with (c # s) (k # ks) = (c = k \<and> starts_with s ks)"

text \<open>\<^verbatim>\<open>s.includes(k)\<close>: \<open>k\<close> occurs in \<open>s\<close> as a contiguous substring.\<close>

fun str_includes :: "string \<Rightarrow> string \<Rightarrow> bool" where
  "str_includes [] k = starts_with [] k"
| "str_includes (c # s) k = (starts_with (c # s) k \<or> str_includes s k)"

text \<open>\<^verbatim>\<open>xs.findIndex(p)\<close>: the index of the first element satisfying \<open>p\<close>, or \<open>-1\<close>.\<close>

fun findIndex :: "('a \<Rightarrow> bool) \<Rightarrow> 'a list \<Rightarrow> int" where
  "findIndex p [] = -1"
| "findIndex p (x # xs) =
     (if p x then 0 else (let i = findIndex p xs in if i < 0 then -1 else i + 1))"

text \<open>\<^verbatim>\<open>xs[i]\<close>: \<open>None\<close> stands for \<^verbatim>\<open>undefined\<close> (index negative or past the end).\<close>

definition elem_at :: "'a list \<Rightarrow> int \<Rightarrow> 'a option" where
  "elem_at xs i = (if 0 \<le> i \<and> i < int (length xs) then Some (xs ! nat i) else None)"

text \<open>\<^verbatim>\<open>v || d\<close> on a possibly undefined string: the empty string is falsy as well.\<close>

definition str_or :: "string option \<Rightarrow> string \<Rightarrow> string" where
  "str_or v d = (case v of None \<Rightarrow> d | Some s \<Rightarrow> if s = [] then d else s)"

section \<open>JavaScript numbers\<close>

text \<open>
  A number is an IEEE 754 double. Finite doubles are modelled as the rationals they denote,
  and every arithmetic operation is the exact operation followed by \<open>fl\<close>, rounding to the
  nearest number with a 53-bit significand, ties to the even significand. The exponent
  range is not bounded: the model agrees with the double operation whenever the exact
  result is zero or has magnitude within the normal range of doubles, and it has no
  \<^verbatim>\<open>Infinity\<close> and no \<^verbatim>\<open>NaN\<close> (where the source can meet \<^verbatim>\<open>NaN\<close>, the result of
  \<^verbatim>\<open>parseFloat\<close>, it is an \<open>option\<close>).
\<close>

definition round_half_even :: "rat \<Rightarrow> int" where
  "round_half_even m =
     (let f = \<lfloor>m\<rfloor>; r = m - of_int f in
      if r < 1 / 2 then f else if 1 / 2 < r then f + 1 else if even f then f else f + 1)"

text \<open>\<open>ilog2 x\<close> is \<open>\<lfloor>log\<^sub>2 x\<rfloor>\<close> for a positive rational.\<close>

definition ilog2 :: "rat \<Rightarrow> int" where
  "ilog2 x =
     (case quotient_of x of (p, q) \<Rightarrow>
        let k = bitlen p - bitlen q in if 2 powi k \<le> x then k else k - 1)"

definition fl :: "rat \<Rightarrow> rat" where
  "fl x =
     (if x = 0 then 0
      else let e = ilog2 \<bar>x\<bar> - 52; m = \<bar>x\<bar> / 2 powi e
           in sgn x * of_int (round_half_even m) * 2 powi e)"

definition fadd :: "rat \<Rightarrow> rat \<Rightarrow> rat" where
  "fadd a b = fl (a + b)"

definition fsub :: "rat \<Rightarrow> rat \<Rightarrow> rat" where
  "fsub a b = fl (a - b)"

definition fmul :: "rat \<Rightarrow> rat \<Rightarrow> rat" where
  "fmul a b = fl (a * b)"

text \<open>Division; the source only divides by lengths that are positive at that point.\<close>

definition fdiv :: "rat \<Rightarrow> rat \<Rightarrow> rat" where
  "fdiv a b = fl (a / b)"

text \<open>\<^verbatim>\<open>Math.round\<close> rounds to the nearest integer, ties towards \<open>+\<infinity>\<close>; \<^verbatim>\<open>Math.ceil\<close>.\<close>

definition math_round :: "rat \<Rightarrow> rat" where
  "math_round x = of_int \<lfloor>x + 1 / 2\<rfloor>"

definition math_ceil :: "rat \<Rightarrow> rat" where
  "math_ceil x = of_int \<lceil>x\<rceil>"

section \<open>Transactions\<close>

text \<open>
  The interface \<^verbatim>\<open>Transaction\<close>. The text fields have type \<open>'a\<close>: \<open>string\<close> where the
  source really stores strings (the delimited-text parser, and the declared parameter type
  of \<^verbatim>\<open>generateReport\<close>), a spreadsheet cell where \<^verbatim>\<open>parseExcel\<close> copies cell values
  of type \<^verbatim>\<open>any\<close> into them. \<open>description\<close> is optional.
\<close>

record 'a transaction =
  date :: 'a
  merchant :: 'a
  amount :: rat
  category :: 'a
  description :: "'a option"

section \<open>Categorizer\<close>

record rule =
  rule_category :: string
  rule_keywords :: "string list"

definition CATEGORY_RULES :: "rule list" where
  "CATEGORY_RULES =
    [\<lparr>rule_category = ''Dining'', rule_keywords = [''restaurant'', ''cafe'', ''coffee'', ''starbucks'',
        ''dinner'', ''lunch'', ''food'', ''grill'', ''bistro'', ''sakura'']\<rparr>,
     \<lparr>rule_category = ''Groceries'', rule_keywords = [''grocery'', ''supermarket'', ''whole foods'',
        ''market'', ''trader'']\<rparr>,
     \<lparr>rule_category = ''Transport'', rule_keywords = [''uber'', ''lyft'', ''gas'', ''fuel'', ''shell'',
        ''exxon'', ''ride'', ''taxi'']\<rparr>,
     \<lparr>rule_category = ''Subscriptions'', rule_keywords = [''netflix'', ''spotify'', ''prime'',
        ''subscription'', ''membership'', ''gym'', ''fitness'', ''icloud'']\<rparr>,
     \<lparr>rule_category = ''Shopping'', rule_keywords = [''amazon'', ''shop'', ''purchase'', ''store'',
        ''mall'', ''target'', ''walmart'']\<rparr>,
     \<lparr>rule_category = ''Entertainment'', rule_keywords = [''movie'', ''cinema'', ''theater'',
        ''ticket'', ''game'', ''ppac'']\<rparr>,
     \<lparr>rule_category = ''Utilities'', rule_keywords = [''electric'', ''water'', ''internet'', ''phone'',
        ''utility'', ''bill'']\<rparr>,
     \<lparr>rule_category = ''Health'', rule_keywords = [''pharmacy'', ''doctor'', ''clinic'', ''medical'',
        ''hospital'', ''cvs'']\<rparr>]"

text \<open>\<^verbatim>\<open>keywords.some(keyword => text.includes(keyword))\<close>\<close>

fun some_keyword :: "string \<Rightarrow> string list \<Rightarrow> bool" where
  "some_keyword text [] = False"
| "some_keyword text (k # ks) = (str_includes text k \<or> some_keyword text ks)"

text \<open>The \<^verbatim>\<open>for (const rule of CATEGORY_RULES)\<close> loop with its early return.\<close>

fun first_rule :: "string \<Rightarrow> rule list \<Rightarrow> string" where
  "first_rule text [] = ''Other''"
| "first_rule text (r # rs) =
     (if some_keyword text (rule_keywords r) then rule_category r else first_rule text rs)"

definition categorizeTransaction :: "string \<Rightarrow> string \<Rightarrow> string" where
  "categorizeTransaction descr merch =
     first_rule (toLowerCase (descr @ '' '' @ merch)) CATEGORY_RULES"

section \<open>Format parsers\<close>

text \<open>
  An exception of the source is a value: a function that can throw returns \<open>error + 'a\<close>.
  \<open>TypeError\<close> is the error of a method call on \<^verbatim>\<open>undefined\<close>; \<open>LibraryError\<close> is whatever
  the spreadsheet library throws on bytes it cannot read.
\<close>

datatype error = TypeError | LibraryError

subsection \<open>Amount text\<close>

definition is_digit :: "char \<Rightarrow> bool" where
  "is_digit c = (48 \<le> (of_char c :: nat) \<and> (of_char c :: nat) \<le> 57)"

text \<open>\<^verbatim>\<open>.replace(/[^0-9.-]/g, '')\<close>\<close>

definition is_num_char :: "char \<Rightarrow> bool" where
  "is_num_char c = (is_digit c \<or> c = CHR ''.'' \<or> c = CHR ''-'')"

definition strip_non_numeric :: "string \<Rightarrow> string" where
  "strip_non_numeric s = filter is_num_char s"

definition digits_val :: "string \<Rightarrow> int" where
  "digits_val ds = foldl (\<lambda>n c. 10 * n + ((of_char c :: int) - 48)) 0 ds"

text \<open>
  \<^verbatim>\<open>parseFloat\<close>, on the strings the parsers give it: after \<open>strip_non_numeric\<close> only
  digits, dots and minus signs are left, so of the decimal literal grammar only an optional
  leading minus, the integer digits and a dot with fraction digits can occur. The longest
  such prefix is read and rounded to a double; \<open>None\<close> is \<^verbatim>\<open>NaN\<close> (no digit in the
  prefix).
\<close>

definition parseFloat :: "string \<Rightarrow> rat option" where
  "parseFloat s =
     (let neg = (s \<noteq> [] \<and> hd s = CHR ''-'');
          r = (if neg then tl s else s);
          ip = takeWhile is_digit r;
          r' = dropWhile is_digit r;
          fp = (if r' \<noteq> [] \<and> hd r' = CHR ''.'' then takeWhile is_digit (tl r') else [])
      in if ip = [] \<and> fp = [] then None
         else Some (fl ((if neg then - 1 else 1) *
                (of_int (digits_val ip) + of_int (digits_val fp) / 10 ^ length fp))))"

text \<open>\<^verbatim>\<open>Math.abs(parseFloat(...))\<close> followed by \<^verbatim>\<open>isNaN(amount) ? 0 : amount\<close>.\<close>

definition abs_amount :: "string \<Rightarrow> rat option" where
  "abs_amount stripped = map_option abs (parseFloat stripped)"

definition nan_to_zero :: "rat option \<Rightarrow> rat" where
  "nan_to_zero a = (case a of None \<Rightarrow> 0 | Some v \<Rightarrow> v)"

subsection \<open>Delimited text\<close>

text \<open>
  The body of the \<^verbatim>\<open>for\<close> loop of \<^verbatim>\<open>parseCSV\<close> for one line. \<open>today\<close> is the value
  of \<^verbatim>\<open>new Date().toISOString().split('T')[0]\<close>. The result is \<open>Inl\<close> when the body throws,
  \<open>Inr None\<close> when nothing is pushed, \<open>Inr (Some t)\<close> when \<open>t\<close> is pushed.
\<close>

definition csv_row :: "string \<Rightarrow> string list \<Rightarrow> string \<Rightarrow> error + string transaction option" where
  "csv_row today headers line =
     (let values = map trim (split CHR '','' line);
          dateIdx = findIndex (\<lambda>h. str_includes h ''date'') headers;
          merchantIdx = findIndex (\<lambda>h. str_includes h ''merchant'' \<or>
                           str_includes h ''description'' \<or> str_includes h ''name'') headers;
          amountIdx = findIndex (\<lambda>h. str_includes h ''amount'' \<or>
                           str_includes h ''price'' \<or> str_includes h ''total'') headers;
          descIdx = findIndex (\<lambda>h. str_includes h ''description'') headers
      in if 0 \<le> dateIdx \<and> 0 \<le> amountIdx then
           (case elem_at values amountIdx of
              None \<Rightarrow> Inl TypeError
            | Some cell \<Rightarrow>
                let amount = abs_amount (strip_non_numeric cell);
                    merchant = str_or (elem_at values merchantIdx) ''Unknown'';
                    description = str_or (elem_at values descIdx) merchant;
                    category = categorizeTransaction description merchant
                in Inr (Some \<lparr>date = str_or (elem_at values dateIdx) today,
                              merchant = merchant,
                              amount = nan_to_zero amount,
                              category = category,
                              description = Some description\<rparr>))
         else Inr None)"

fun csv_loop ::
  "string \<Rightarrow> string list \<Rightarrow> string list \<Rightarrow> string transaction list \<Rightarrow>
   error + string transaction list" where
  "csv_loop today headers [] transactions = Inr transactions"
| "csv_loop today headers (line # lines) transactions =
     (case csv_row today headers line of
        Inl e \<Rightarrow> Inl e
      | Inr None \<Rightarrow> csv_loop today headers lines transactions
      | Inr (Some t) \<Rightarrow> csv_loop today headers lines (transactions @ [t]))"

definition parseCSV :: "string \<Rightarrow> string \<Rightarrow> error + string transaction list" where
  "parseCSV today content =
     (let lines = filter (\<lambda>line. trim line \<noteq> []) (split newline content)
      in if length lines < 2 then Inr []
         else let headers = map trim (split CHR '','' (toLowerCase (hd lines)))
              in csv_loop today headers (tl lines) [])"

subsection \<open>Spreadsheet\<close>

text \<open>
  The rows that \<^verbatim>\<open>XLSX.utils.sheet_to_json\<close> returns are objects from column header to
  cell value; a row is the list of its properties in the order of \<^verbatim>\<open>Object.keys\<close>. A cell
  value is a string, a number or a boolean. The library is not part of the program: the
  parser takes what \<^verbatim>\<open>XLSX.read\<close> and \<^verbatim>\<open>sheet_to_json\<close> produce for the bytes, the rows
  of the first sheet or an exception, and \<open>num_str\<close>, the conversion of a number to a string
  of the runtime.
\<close>

datatype cell = CStr string | CNum rat | CBool bool

type_synonym row = "(string \<times> cell) list"

fun truthy :: "cell \<Rightarrow> bool" where
  "truthy (CStr s) = (s \<noteq> [])"
| "truthy (CNum n) = (n \<noteq> 0)"
| "truthy (CBool b) = b"

text \<open>\<^verbatim>\<open>row[key] || d\<close>\<close>

definition cell_or :: "cell option \<Rightarrow> cell \<Rightarrow> cell" where
  "cell_or v d = (case v of None \<Rightarrow> d | Some c \<Rightarrow> if truthy c then c else d)"

text \<open>\<^verbatim>\<open>String(v)\<close>\<close>

fun js_String :: "(rat \<Rightarrow> string) \<Rightarrow> cell option \<Rightarrow> string" where
  "js_String num_str None = ''undefined''"
| "js_String num_str (Some (CStr s)) = s"
| "js_String num_str (Some (CNum n)) = num_str n"
| "js_String num_str (Some (CBool b)) = (if b then ''true'' else ''false'')"

text \<open>A key found by \<^verbatim>\<open>find\<close> used as a condition, and \<^verbatim>\<open>key || ''\<close>.\<close>

definition key_truthy :: "string option \<Rightarrow> bool" where
  "key_truthy k = (case k of None \<Rightarrow> False | Some s \<Rightarrow> s \<noteq> [])"

definition key_or_empty :: "string option \<Rightarrow> string" where
  "key_or_empty k = str_or k []"

definition xl_row :: "(rat \<Rightarrow> string) \<Rightarrow> string \<Rightarrow> row \<Rightarrow> cell transaction option" where
  "xl_row num_str today row =
     (let keys = map fst row;
          dateKey = find (\<lambda>k. str_includes (toLowerCase k) ''date'') keys;
          merchantKey = find (\<lambda>k. str_includes (toLowerCase k) ''merchant'' \<or>
                           str_includes (toLowerCase k) ''description'' \<or>
                           str_includes (toLowerCase k) ''name'') keys;
          amountKey = find (\<lambda>k. str_includes (toLowerCase k) ''amount'' \<or>
                           str_includes (toLowerCase k) ''price'' \<or>
                           str_includes (toLowerCase k) ''total'') keys;
          categoryKey = find (\<lambda>k. str_includes (toLowerCase k) ''category'' \<or>
                           str_includes (toLowerCase k) ''type'') keys
      in if key_truthy dateKey \<and> key_truthy amountKey then
           let amountStr = strip_non_numeric (js_String num_str (map_of row (key_or_empty amountKey)));
               amount = abs_amount amountStr
           in Some \<lparr>date = cell_or (map_of row (key_or_empty dateKey)) (CStr today),
                    merchant = cell_or (map_of row (key_or_empty merchantKey)) (CStr ''Unknown''),
                    amount = nan_to_zero amount,
                    category = cell_or (map_of row (key_or_empty categoryKey)) (CStr ''Uncategorized''),
                    description = None\<rparr>
         else None)"

fun xl_loop ::
  "(rat \<Rightarrow> string) \<Rightarrow> string \<Rightarrow> row list \<Rightarrow> cell transaction list \<Rightarrow> cell transaction list" where
  "xl_loop num_str today [] transactions = transactions"
| "xl_loop num_str today (row # rows) transactions =
     (case xl_row num_str today row of
        None \<Rightarrow> xl_loop num_str today rows transactions
      | Some t \<Rightarrow> xl_loop num_str today rows (transactions @ [t]))"

text \<open>The block under \<^verbatim>\<open>try\<close>, and the function with its \<^verbatim>\<open>catch\<close>.\<close>

definition parseExcel_try ::
  "(rat \<Rightarrow> string) \<Rightarrow> string \<Rightarrow> error + row list \<Rightarrow> error + cell transaction list" where
  "parseExcel_try num_str today sheet =
     (case sheet of
        Inl e \<Rightarrow> Inl e
      | Inr jsonData \<Rightarrow>
          if length jsonData = 0 then Inr [] else Inr (xl_loop num_str today jsonData []))"

definition parseExcel ::
  "(rat \<Rightarrow> string) \<Rightarrow> string \<Rightarrow> error + row list \<Rightarrow> error + cell transaction list" where
  "parseExcel num_str today sheet =
     (case parseExcel_try num_str today sheet of Inl e \<Rightarrow> Inr [] | Inr ts \<Rightarrow> Inr ts)"

subsection \<open>PDF\<close>

definition parsePDF :: "'b \<Rightarrow> error + string transaction list" where
  "parsePDF arrayBuffer = Inr []"

section \<open>JavaScript objects and arrays\<close>

text \<open>
  An object used as a dictionary (\<^verbatim>\<open>Record<string, V>\<close>, created as \<^verbatim>\<open>{}\<close>) is the list
  of its own properties in creation order. \<open>obj_get\<close> reads an own property (\<open>None\<close> is
  \<^verbatim>\<open>undefined\<close>), \<open>obj_set\<close> assigns one: an existing key keeps its place, a new key goes
  to the end.

  The model reads own properties only. An object created as \<^verbatim>\<open>{}\<close> also inherits the
  members of \<^verbatim>\<open>Object.prototype\<close>, so in the source a read of a key such as
  \<^verbatim>\<open>constructor\<close> that was not assigned yet gives a function, not \<^verbatim>\<open>undefined\<close>. The
  names in \<open>proto_members\<close> are outside the model; the theorems that depend on the values
  stored under data-dependent keys assume \<open>plain_key\<close> of those keys.
\<close>

type_synonym 'v obj = "(string \<times> 'v) list"

definition obj_get :: "'v obj \<Rightarrow> string \<Rightarrow> 'v option" where
  "obj_get ob k = map_of ob k"

fun obj_set :: "'v obj \<Rightarrow> string \<Rightarrow> 'v \<Rightarrow> 'v obj" where
  "obj_set [] k v = [(k, v)]"
| "obj_set (p # ps) k v = (if fst p = k then (k, v) # ps else p # obj_set ps k v)"

definition proto_members :: "string list" where
  "proto_members =
     [''constructor'', ''__defineGetter__'', ''__defineSetter__'', ''hasOwnProperty'',
      ''__lookupGetter__'', ''__lookupSetter__'', ''isPrototypeOf'', ''propertyIsEnumerable'',
      ''toString'', ''valueOf'', ''__proto__'', ''toLocaleString'']"

definition plain_key :: "string \<Rightarrow> bool" where
  "plain_key k = (k \<notin> set proto_members)"

text \<open>
  The order of \<^verbatim>\<open>Object.keys\<close> and \<^verbatim>\<open>Object.entries\<close>: first the keys that are array
  indices (the decimal numeral, without leading zeros, of an integer below \<open>2\<^sup>3\<^sup>2 - 1\<close>) in
  ascending numeric order, then all other keys in creation order.
\<close>

definition is_array_index :: "string \<Rightarrow> bool" where
  "is_array_index k =
     (k \<noteq> [] \<and> list_all is_digit k \<and> (k = ''0'' \<or> hd k \<noteq> CHR ''0'') \<and>
      digits_val k < 4294967295)"

definition obj_entries :: "'v obj \<Rightarrow> (string \<times> 'v) list" where
  "obj_entries ob =
     sort_key (\<lambda>p. digits_val (fst p)) (filter (\<lambda>p. is_array_index (fst p)) ob) @
     filter (\<lambda>p. \<not> is_array_index (fst p)) ob"

definition obj_keys :: "'v obj \<Rightarrow> string list" where
  "obj_keys ob = map fst (obj_entries ob)"

text \<open>
  \<^verbatim>\<open>Array.prototype.sort\<close> with a comparison function is stable; for a comparison function
  that is consistent its result is the stable insertion of each element, from the right,
  before the first element it does not compare greater than.
\<close>

fun js_insert :: "('a \<Rightarrow> 'a \<Rightarrow> rat) \<Rightarrow> 'a \<Rightarrow> 'a list \<Rightarrow> 'a list" where
  "js_insert cmp x [] = [x]"
| "js_insert cmp x (y # ys) = (if cmp x y \<le> 0 then x # y # ys else y # js_insert cmp x ys)"

definition js_sort :: "('a \<Rightarrow> 'a \<Rightarrow> rat) \<Rightarrow> 'a list \<Rightarrow> 'a list" where
  "js_sort cmp xs = foldr (js_insert cmp) xs []"

text \<open>Without a comparison function strings are compared by their code units.\<close>

fun str_less :: "string \<Rightarrow> string \<Rightarrow> bool" where
  "str_less [] [] = False"
| "str_less [] (y # ys) = True"
| "str_less (x # xs) [] = False"
| "str_less (x # xs) (y # ys) =
     ((of_char x :: nat) < of_char y \<or> (x = y \<and> str_less xs ys))"

definition default_cmp :: "string \<Rightarrow> string \<Rightarrow> rat" where
  "default_cmp x y = (if str_less x y then - 1 else if str_less y x then 1 else 0)"

text \<open>\<^verbatim>\<open>xs.slice(-3)\<close> and \<^verbatim>\<open>xs.slice(0, 10)\<close>\<close>

definition slice_last3 :: "'a list \<Rightarrow> 'a list" where
  "slice_last3 xs = drop (length xs - 3) xs"

definition slice_first10 :: "'a list \<Rightarrow> 'a list" where
  "slice_first10 xs = take 10 xs"

section \<open>Report generation\<close>

record report_totals =
  transactionCount :: nat
  totalSpent :: rat
  avgSpendPerTxn :: rat

record merchant_data =
  spent :: rat
  count :: nat

record top_merchant =
  tm_merchant :: string
  tm_spent :: rat
  tm_count :: nat

record report_forecast =
  nextMonthSpend :: rat
  confidence :: string
  fc_method :: string

record health =
  score :: int
  summary :: string

record period_hint =
  ph_start :: string
  ph_end :: string
  monthsDetected :: nat

record report =
  totals :: report_totals
  byCategory :: "rat obj"
  byMonth :: "rat obj"
  topMerchants :: "top_merchant list"
  budget :: "rat obj"
  forecast :: "report_forecast option"
  healthScore :: health
  periodHint :: period_hint

text \<open>\<^verbatim>\<open>transactions.reduce((sum, t) => sum + t.amount, 0)\<close>\<close>

definition total_spent :: "string transaction list \<Rightarrow> rat" where
  "total_spent transactions = foldl (\<lambda>sum t. fadd sum (amount t)) 0 transactions"

text \<open>\<^verbatim>\<open>ob[k] = (ob[k] || 0) + a\<close>\<close>

definition add_to :: "rat obj \<Rightarrow> string \<Rightarrow> rat \<Rightarrow> rat obj" where
  "add_to ob k a = obj_set ob k (fadd (case obj_get ob k of None \<Rightarrow> 0 | Some v \<Rightarrow> v) a)"

definition by_category :: "string transaction list \<Rightarrow> rat obj" where
  "by_category transactions = foldl (\<lambda>ob t. add_to ob (category t) (amount t)) [] transactions"

definition by_month :: "string transaction list \<Rightarrow> rat obj" where
  "by_month transactions =
     foldl (\<lambda>ob t. let month = take 7 (date t) in add_to ob month (amount t)) [] transactions"

text \<open>The body of the third \<^verbatim>\<open>forEach\<close>, on \<^verbatim>\<open>merchantMap\<close>.\<close>

definition add_merchant :: "merchant_data obj \<Rightarrow> string transaction \<Rightarrow> merchant_data obj" where
  "add_merchant ob t =
     (let ob1 = (if obj_get ob (merchant t) = None
                 then obj_set ob (merchant t) \<lparr>spent = 0, count = 0\<rparr> else ob);
          d = (case obj_get ob1 (merchant t) of
                 None \<Rightarrow> \<lparr>spent = 0, count = 0\<rparr> | Some d \<Rightarrow> d)
      in obj_set ob1 (merchant t) \<lparr>spent = fadd (spent d) (amount t), count = count d + 1\<rparr>)"

definition merchant_map :: "string transaction list \<Rightarrow> merchant_data obj" where
  "merchant_map transactions = foldl add_merchant [] transactions"

definition top_merchants :: "string transaction list \<Rightarrow> top_merchant list" where
  "top_merchants transactions =
     slice_first10
       (js_sort (\<lambda>a b. fsub (tm_spent b) (tm_spent a))
          (map (\<lambda>p. \<lparr>tm_merchant = fst p, tm_spent = spent (snd p), tm_count = count (snd p)\<rparr>)
               (obj_entries (merchant_map transactions))))"

definition budget_of :: "rat obj \<Rightarrow> rat obj" where
  "budget_of byCat =
     foldl (\<lambda>ob p. obj_set ob (fst p) (math_ceil (fmul (snd p) (fl (11 / 10))))) []
           (obj_entries byCat)"

definition forecast_of :: "rat obj \<Rightarrow> report_forecast option" where
  "forecast_of byMon =
     (let months = js_sort default_cmp (obj_keys byMon)
      in if 2 \<le> length months then
           let recentMonths = slice_last3 months;
               avgRecent = fdiv (foldl (\<lambda>sum m. fadd sum (the (obj_get byMon m))) 0 recentMonths)
                                (of_nat (length recentMonths))
           in Some \<lparr>nextMonthSpend = math_round avgRecent,
                    confidence = (if 3 \<le> length months then ''High'' else ''Medium''),
                    fc_method = ''Average of last 3 months''\<rparr>
         else None)"

definition health_of :: "rat \<Rightarrow> rat obj \<Rightarrow> rat obj \<Rightarrow> health" where
  "health_of total_sp byCat byMon =
     (let avgMonthly = fdiv total_sp (of_nat (length (obj_keys byMon)));
          s0 = (75 :: int);
          s1 = (if 3000 < avgMonthly then s0 - 15 else s0);
          s2 = (if 5000 < avgMonthly then s1 - 10 else s1);
          s3 = (if (case obj_get byCat ''Dining'' of
                      None \<Rightarrow> False
                    | Some d \<Rightarrow> d \<noteq> 0 \<and> fmul total_sp (fl (3 / 10)) < d)
                then s2 - 10 else s2)
      in \<lparr>score = max 0 (min 100 s3),
          summary = (if 80 \<le> s3 then ''Excellent financial health!''
                     else if 60 \<le> s3 then ''Good, with room for improvement''
                     else ''Consider reducing spending'')\<rparr>)"

definition period_of :: "string transaction list \<Rightarrow> rat obj \<Rightarrow> period_hint" where
  "period_of transactions byMon =
     (let dates = js_sort default_cmp (map date transactions)
      in \<lparr>ph_start = hd dates, ph_end = last dates,
          monthsDetected = length (obj_keys byMon)\<rparr>)"

definition generateReport :: "string transaction list \<Rightarrow> report" where
  "generateReport transactions =
     (if length transactions = 0 then
        \<lparr>totals = \<lparr>transactionCount = 0, totalSpent = 0, avgSpendPerTxn = 0\<rparr>,
         byCategory = [], byMonth = [], topMerchants = [], budget = [], forecast = None,
         healthScore = \<lparr>score = 0, summary = ''No data available''\<rparr>,
         periodHint = \<lparr>ph_start = [], ph_end = [], monthsDetected = 0\<rparr>\<rparr>
      else
        let total_sp = total_spent transactions;
            transactionCount = length transactions;
            avgSpendPerTxn = fdiv total_sp (of_nat transactionCount);
            byCat = by_category transactions;
            byMon = by_month transactions
        in \<lparr>totals = \<lparr>transactionCount = transactionCount, totalSpent = total_sp,
                       avgSpendPerTxn = avgSpendPerTxn\<rparr>,
            byCategory = byCat, byMonth = byMon,
            topMerchants = top_merchants transactions,
            budget = budget_of byCat,
            forecast = forecast_of byMon,
            healthScore = health_of total_sp byCat byMon,
            periodHint = period_of transactions byMon\<rparr>)"

section \<open>Notions used to state the properties\<close>

text \<open>\<open>k\<close> occurs in \<open>s\<close> as a contiguous substring.\<close>

definition occurs_in :: "string \<Rightarrow> string \<Rightarrow> bool" where
  "occurs_in k s = (\<exists>p q. s = p @ k @ q)"

text \<open>The predicates on a lower-cased column name that resolve the date and the amount column.\<close>

definition date_name :: "string \<Rightarrow> bool" where
  "date_name h = str_includes h ''date''"

definition amount_name :: "string \<Rightarrow> bool" where
  "amount_name h = (str_includes h ''amount'' \<or> str_includes h ''price'' \<or> str_includes h ''total'')"

text \<open>The non-blank lines of a delimited text, the names in its header, the cells of a line.\<close>

definition csv_lines :: "string \<Rightarrow> string list" where
  "csv_lines content = filter (\<lambda>line. trim line \<noteq> []) (split newline content)"

definition csv_headers :: "string \<Rightarrow> string list" where
  "csv_headers content = map trim (split CHR '','' (toLowerCase (hd (csv_lines content))))"

definition csv_cells :: "string \<Rightarrow> string list" where
  "csv_cells line = map trim (split CHR '','' line)"


text \<open>The elements of a list in the order of their first occurrence.\<close>

definition first_seen :: "'a list \<Rightarrow> 'a list" where
  "first_seen xs = rev (remdups (rev xs))"

text \<open>The sum of a list of numbers, added from left to right in double arithmetic.\<close>

definition float_sum :: "rat list \<Rightarrow> rat" where
  "float_sum xs = foldl fadd 0 xs"

text \<open>The month key of a transaction.\<close>

definition month_of :: "string transaction \<Rightarrow> string" where
  "month_of t = take 7 (date t)"

text \<open>The health score of the specification, before clamping, and its summary.\<close>

definition spec_health_raw :: "rat \<Rightarrow> nat \<Rightarrow> rat \<Rightarrow> int" where
  "spec_health_raw total_sp months dining =
     75 - (if 3000 < fdiv total_sp (of_nat months) then 15 else 0)
        - (if 5000 < fdiv total_sp (of_nat months) then 10 else 0)
        - (if fmul total_sp (fl (3 / 10)) < dining then 10 else 0)"

definition spec_summary :: "int \<Rightarrow> string" where
  "spec_summary s =
     (if 80 \<le> s then ''Excellent financial health!''
      else if 60 \<le> s then ''Good, with room for improvement''
      else ''Consider reducing spending'')"

text \<open>The sum of the values of an object, in the order of \<^verbatim>\<open>Object.values\<close>.\<close>

definition values_sum :: "rat obj \<Rightarrow> rat" where
  "values_sum ob = float_sum (map snd (obj_entries ob))"

text \<open>The month keys of \<^verbatim>\<open>byMonth\<close> in ascending order.\<close>

definition sorted_months :: "rat obj \<Rightarrow> string list" where
  "sorted_months byMon = js_sort default_cmp (obj_keys byMon)"

text \<open>The spend of a month: the sum of the amounts of its transactions, in input order.\<close>

definition month_spend :: "string transaction list \<Rightarrow> string \<Rightarrow> rat" where
  "month_spend ts m = float_sum (map amount (filter (\<lambda>t. month_of t = m) ts))"

text \<open>
  The entry of merchant \<open>m\<close>: the sum of the amounts of its transactions, added in input
  order in double arithmetic, and their number.
\<close>

definition merchant_entry :: "string transaction list \<Rightarrow> string \<Rightarrow> top_merchant" where
  "merchant_entry ts m =
     \<lparr>tm_merchant = m,
      tm_spent = float_sum (map amount (filter (\<lambda>t. merchant t = m) ts)),
      tm_count = length (filter (\<lambda>t. merchant t = m) ts)\<rparr>"

text \<open>
  The order in which an object enumerates keys created in the order \<open>ks\<close>: array indices
  first, in ascending numeric order, then the other keys in creation order.
\<close>

definition enumeration_order :: "string list \<Rightarrow> string list" where
  "enumeration_order ks =
     sort_key digits_val (filter is_array_index ks) @ filter (\<lambda>k. \<not> is_array_index k) ks"

section \<open>Report generation on a store\<close>

text \<open>
  To speak about what \<^verbatim>\<open>generateReport\<close> writes, the same function is modelled a second
  time on an explicit store. An address is an index into the store; \<open>alloc\<close> puts a new
  object at the end. The argument \<^verbatim>\<open>transactions\<close> is the address of an array of
  addresses of transaction objects. Every object literal and every array that a method
  returns (\<^verbatim>\<open>map\<close>, \<^verbatim>\<open>slice\<close>, \<^verbatim>\<open>Object.keys\<close>, \<^verbatim>\<open>Object.entries\<close>) is allocated;
  a property assignment and \<^verbatim>\<open>sort\<close>, which sorts its receiver in place, overwrite the
  object at the address they are applied to. The small objects inside \<^verbatim>\<open>merchantMap\<close>
  and inside the arrays of entries are held by value in their container.
\<close>

type_synonym addr = nat

datatype hval =
    HTxn "string transaction"
  | HTxnArr "addr list"
  | HStrArr "string list"
  | HEntArr "top_merchant list"
  | HNumObj "rat obj"
  | HMerchObj "merchant_data obj"

type_synonym store = "hval list"

definition alloc :: "store \<Rightarrow> hval \<Rightarrow> addr \<times> store" where
  "alloc h v = (length h, h @ [v])"

text \<open>Typed reads; the value after \<open>_\<close> is never used on a well-formed store.\<close>

definition txn_at :: "store \<Rightarrow> addr \<Rightarrow> string transaction" where
  "txn_at h x =
     (case h ! x of HTxn t \<Rightarrow> t
      | _ \<Rightarrow> \<lparr>date = [], merchant = [], amount = 0, category = [], description = None\<rparr>)"

definition txn_arr :: "store \<Rightarrow> addr \<Rightarrow> addr list" where
  "txn_arr h a = (case h ! a of HTxnArr xs \<Rightarrow> xs | _ \<Rightarrow> [])"

definition str_arr :: "store \<Rightarrow> addr \<Rightarrow> string list" where
  "str_arr h a = (case h ! a of HStrArr xs \<Rightarrow> xs | _ \<Rightarrow> [])"

definition ent_arr :: "store \<Rightarrow> addr \<Rightarrow> top_merchant list" where
  "ent_arr h a = (case h ! a of HEntArr xs \<Rightarrow> xs | _ \<Rightarrow> [])"

definition num_obj :: "store \<Rightarrow> addr \<Rightarrow> rat obj" where
  "num_obj h a = (case h ! a of HNumObj ob \<Rightarrow> ob | _ \<Rightarrow> [])"

definition merch_obj :: "store \<Rightarrow> addr \<Rightarrow> merchant_data obj" where
  "merch_obj h a = (case h ! a of HMerchObj ob \<Rightarrow> ob | _ \<Rightarrow> [])"

text \<open>The transactions that the array at \<open>a\<close> holds, in order.\<close>

definition read_txns :: "store \<Rightarrow> addr \<Rightarrow> string transaction list" where
  "read_txns h a = map (txn_at h) (txn_arr h a)"

fun is_txn :: "hval \<Rightarrow> bool" where
  "is_txn (HTxn t) = True"
| "is_txn _ = False"

definition wf_input :: "store \<Rightarrow> addr \<Rightarrow> bool" where
  "wf_input h a =
     (a < length h \<and>
      (case h ! a of
         HTxnArr xs \<Rightarrow> list_all (\<lambda>x. x < length h \<and> is_txn (h ! x)) xs
       | _ \<Rightarrow> False))"

text \<open>The three \<^verbatim>\<open>forEach\<close> loops, each on an object allocated just before.\<close>

definition by_category_st :: "addr list \<Rightarrow> store \<Rightarrow> addr \<times> store" where
  "by_category_st xs h =
     (case alloc h (HNumObj []) of (p, h1) \<Rightarrow>
        (p, foldl (\<lambda>h x. let t = txn_at h x
                         in h[p := HNumObj (add_to (num_obj h p) (category t) (amount t))])
                  h1 xs))"

definition by_month_st :: "addr list \<Rightarrow> store \<Rightarrow> addr \<times> store" where
  "by_month_st xs h =
     (case alloc h (HNumObj []) of (p, h1) \<Rightarrow>
        (p, foldl (\<lambda>h x. let t = txn_at h x; month = take 7 (date t)
                         in h[p := HNumObj (add_to (num_obj h p) month (amount t))])
                  h1 xs))"

definition merchant_map_st :: "addr list \<Rightarrow> store \<Rightarrow> addr \<times> store" where
  "merchant_map_st xs h =
     (case alloc h (HMerchObj []) of (p, h1) \<Rightarrow>
        (p, foldl (\<lambda>h x. h[p := HMerchObj (add_merchant (merch_obj h p) (txn_at h x))]) h1 xs))"

text \<open>\<^verbatim>\<open>Object.entries(merchantMap).map(...).sort(...).slice(0, 10)\<close>\<close>

definition top_merchants_st :: "addr \<Rightarrow> store \<Rightarrow> addr \<times> store" where
  "top_merchants_st pmm h =
     (case alloc h (HEntArr
             (map (\<lambda>p. \<lparr>tm_merchant = fst p, tm_spent = spent (snd p), tm_count = count (snd p)\<rparr>)
                  (obj_entries (merch_obj h pmm)))) of (pe, h1) \<Rightarrow>
        let h2 = h1[pe := HEntArr (js_sort (\<lambda>a b. fsub (tm_spent b) (tm_spent a)) (ent_arr h1 pe))]
        in alloc h2 (HEntArr (slice_first10 (ent_arr h2 pe))))"

definition budget_st :: "addr \<Rightarrow> store \<Rightarrow> addr \<times> store" where
  "budget_st pc h =
     (case alloc h (HNumObj []) of (p, h1) \<Rightarrow>
        (p, foldl (\<lambda>h e. h[p := HNumObj (obj_set (num_obj h p) (fst e)
                                    (math_ceil (fmul (snd e) (fl (11 / 10)))))])
                  h1 (obj_entries (num_obj h1 pc))))"

text \<open>\<^verbatim>\<open>Object.keys(byMonth).sort()\<close> and \<^verbatim>\<open>transactions.map(t => t.date).sort()\<close>\<close>

definition months_st :: "addr \<Rightarrow> store \<Rightarrow> addr \<times> store" where
  "months_st pm h =
     (case alloc h (HStrArr (obj_keys (num_obj h pm))) of (pk, h1) \<Rightarrow>
        (pk, h1[pk := HStrArr (js_sort default_cmp (str_arr h1 pk))]))"

definition dates_st :: "addr list \<Rightarrow> store \<Rightarrow> addr \<times> store" where
  "dates_st xs h =
     (case alloc h (HStrArr (map (\<lambda>x. date (txn_at h x)) xs)) of (pd, h1) \<Rightarrow>
        (pd, h1[pd := HStrArr (js_sort default_cmp (str_arr h1 pd))]))"

definition forecast_st :: "addr \<Rightarrow> addr \<Rightarrow> store \<Rightarrow> report_forecast option \<times> store" where
  "forecast_st pk pm h =
     (let months = str_arr h pk
      in if 2 \<le> length months then
           (case alloc h (HStrArr (slice_last3 months)) of (pr, h1) \<Rightarrow>
              let recentMonths = str_arr h1 pr;
                  avgRecent = fdiv (foldl (\<lambda>sum m. fadd sum (the (obj_get (num_obj h1 pm) m))) 0
                                      recentMonths)
                                   (of_nat (length recentMonths))
              in (Some \<lparr>nextMonthSpend = math_round avgRecent,
                        confidence = (if 3 \<le> length months then ''High'' else ''Medium''),
                        fc_method = ''Average of last 3 months''\<rparr>, h1))
         else (None, h))"

definition generateReport_st :: "addr \<Rightarrow> store \<Rightarrow> report \<times> store" where
  "generateReport_st transactions h =
     (let xs = txn_arr h transactions
      in if length xs = 0 then
           (\<lparr>totals = \<lparr>transactionCount = 0, totalSpent = 0, avgSpendPerTxn = 0\<rparr>,
             byCategory = [], byMonth = [], topMerchants = [], budget = [], forecast = None,
             healthScore = \<lparr>score = 0, summary = ''No data available''\<rparr>,
             periodHint = \<lparr>ph_start = [], ph_end = [], monthsDetected = 0\<rparr>\<rparr>, h)
         else
           let total_sp = foldl (\<lambda>sum x. fadd sum (amount (txn_at h x))) 0 xs;
               transactionCount = length xs;
               avgSpendPerTxn = fdiv total_sp (of_nat transactionCount)
           in case by_category_st xs h of (pc, h1) \<Rightarrow>
              case by_month_st xs h1 of (pm, h2) \<Rightarrow>
              case merchant_map_st xs h2 of (pmm, h3) \<Rightarrow>
              case top_merchants_st pmm h3 of (pt, h4) \<Rightarrow>
              case budget_st pc h4 of (pb, h5) \<Rightarrow>
              case months_st pm h5 of (pk, h6) \<Rightarrow>
              case forecast_st pk pm h6 of (fc, h7) \<Rightarrow>
              case dates_st xs h7 of (pd, h8) \<Rightarrow>
                (\<lparr>totals = \<lparr>transactionCount = transactionCount, totalSpent = total_sp,
                             avgSpendPerTxn = avgSpendPerTxn\<rparr>,
                  byCategory = num_obj h8 pc, byMonth = num_obj h8 pm,
                  topMerchants = ent_arr h8 pt,
                  budget = num_obj h8 pb,
                  forecast = fc,
                  healthScore = health_of total_sp (num_obj h8 pc) (num_obj h8 pm),
                  periodHint = \<lparr>ph_start = hd (str_arr h8 pd), ph_end = last (str_arr h8 pd),
                                 monthsDetected = length (obj_keys (num_obj h8 pm))\<rparr>\<rparr>, h8))"

text \<open>\<open>h'\<close> extends \<open>h\<close>: every object of \<open>h\<close> is in \<open>h'\<close>, unchanged, at its address.\<close>

definition extends :: "store \<Rightarrow> store \<Rightarrow> bool" where
  "extends h h' = (length h \<le> length h' \<and> take (length h) h' = h)"

section \<open>Properties of the string functions\<close>

lemma starts_with_iff: "starts_with s k \<longleftrightarrow> (\<exists>q. s = k @ q)"
  by (induction s k rule: starts_with.induct) auto

lemma str_includes_iff: "str_includes s k \<longleftrightarrow> occurs_in k s"
  unfolding occurs_in_def
proof (induction s)
  case Nil
  show ?case by (cases k) (auto simp: starts_with_iff)
next
  case (Cons c s)
  show ?case
  proof
    assume "str_includes (c # s) k"
    then consider "starts_with (c # s) k" | "str_includes s k" by auto
    then show "\<exists>p q. c # s = p @ k @ q"
    proof cases
      case 1
      then obtain q where "c # s = k @ q" by (auto simp: starts_with_iff)
      then have "c # s = [] @ k @ q" by simp
      then show ?thesis by blast
    next
      case 2
      then obtain p q where "s = p @ k @ q" using Cons.IH by blast
      then have "c # s = (c # p) @ k @ q" by simp
      then show ?thesis by blast
    qed
  next
    assume "\<exists>p q. c # s = p @ k @ q"
    then obtain p q where pq: "c # s = p @ k @ q" by blast
    show "str_includes (c # s) k"
    proof (cases p)
      case Nil
      with pq have "\<exists>q. c # s = k @ q" by auto
      then have "starts_with (c # s) k" by (simp only: starts_with_iff)
      then show ?thesis by simp
    next
      case (Cons a p')
      with pq have "s = p' @ k @ q" by simp
      then have "str_includes s k" using Cons.IH by blast
      then show ?thesis by simp
    qed
  qed
qed

section \<open>The categorizer\<close>

lemma some_keyword_iff: "some_keyword t ks \<longleftrightarrow> (\<exists>k\<in>set ks. occurs_in k t)"
  by (induction ks) (auto simp: str_includes_iff)

lemma first_rule_find:
  "first_rule t rs =
     (case find (\<lambda>r. some_keyword t (rule_keywords r)) rs of
        None \<Rightarrow> ''Other'' | Some r \<Rightarrow> rule_category r)"
  by (induction rs) auto

lemma occurs_in_append: "occurs_in k s \<Longrightarrow> occurs_in k (a @ s @ b)"
proof -
  assume "occurs_in k s"
  then obtain p q where "s = p @ k @ q" unfolding occurs_in_def by blast
  then have "a @ s @ b = (a @ p) @ k @ (q @ b)" by simp
  then show ?thesis unfolding occurs_in_def by blast
qed

text \<open>
  Claim C9. \<open>categorizeTransaction\<close> lower-cases the description and the merchant, joined
  by a space, and returns the category of the first rule of the table, in table order, one of
  whose keywords occurs in that text as a substring, and \<open>Other\<close> when no rule has such a
  keyword. In particular, a description or merchant that contains \<open>starbucks\<close> in any
  letter case gives \<open>Dining\<close>, and a text in which no keyword occurs gives \<open>Other\<close>.
\<close>

theorem categorize_first_matching_rule:
  "categorizeTransaction d m =
     (case find (\<lambda>r. \<exists>k\<in>set (rule_keywords r). occurs_in k (toLowerCase (d @ '' '' @ m)))
             CATEGORY_RULES of
        None \<Rightarrow> ''Other'' | Some r \<Rightarrow> rule_category r)
   \<and> (occurs_in ''starbucks'' (toLowerCase d) \<or> occurs_in ''starbucks'' (toLowerCase m)
        \<longrightarrow> categorizeTransaction d m = ''Dining'')
   \<and> ((\<forall>r\<in>set CATEGORY_RULES. \<forall>k\<in>set (rule_keywords r).
          \<not> occurs_in k (toLowerCase (d @ '' '' @ m)))
        \<longrightarrow> categorizeTransaction d m = ''Other'')"
proof (intro conjI impI)
  let ?t = "toLowerCase (d @ '' '' @ m)"
  have P: "(\<lambda>r. some_keyword ?t (rule_keywords r)) =
           (\<lambda>r. \<exists>k\<in>set (rule_keywords r). occurs_in k ?t)"
    by (simp add: some_keyword_iff)
  show "categorizeTransaction d m =
     (case find (\<lambda>r. \<exists>k\<in>set (rule_keywords r). occurs_in k ?t) CATEGORY_RULES of
        None \<Rightarrow> ''Other'' | Some r \<Rightarrow> rule_category r)"
    unfolding categorizeTransaction_def first_rule_find P ..
next
  let ?t = "toLowerCase (d @ '' '' @ m)"
  have t: "?t = toLowerCase d @ toLowerCase '' '' @ toLowerCase m"
    by (simp add: toLowerCase_def)
  assume "occurs_in ''starbucks'' (toLowerCase d) \<or> occurs_in ''starbucks'' (toLowerCase m)"
  then have "occurs_in ''starbucks'' ?t"
  proof
    assume "occurs_in ''starbucks'' (toLowerCase d)"
    then have "occurs_in ''starbucks'' ([] @ toLowerCase d @ (toLowerCase '' '' @ toLowerCase m))"
      by (rule occurs_in_append)
    then show ?thesis by (simp only: t append_Nil)
  next
    assume "occurs_in ''starbucks'' (toLowerCase m)"
    then have "occurs_in ''starbucks'' ((toLowerCase d @ toLowerCase '' '') @ toLowerCase m @ [])"
      by (rule occurs_in_append)
    then show ?thesis by (simp only: t append_assoc append_Nil2)
  qed
  then have "str_includes ?t ''starbucks''"
    by (simp add: str_includes_iff)
  then show "categorizeTransaction d m = ''Dining''"
    by (simp add: categorizeTransaction_def CATEGORY_RULES_def)
next
  let ?t = "toLowerCase (d @ '' '' @ m)"
  assume "\<forall>r\<in>set CATEGORY_RULES. \<forall>k\<in>set (rule_keywords r). \<not> occurs_in k ?t"
  then have "\<forall>r\<in>set CATEGORY_RULES. \<not> some_keyword ?t (rule_keywords r)"
    by (simp add: some_keyword_iff)
  then have "find (\<lambda>r. some_keyword ?t (rule_keywords r)) CATEGORY_RULES = None"
    by (simp add: find_None_iff)
  then show "categorizeTransaction d m = ''Other''"
    by (simp add: categorizeTransaction_def first_rule_find)
qed

theorem categorize_first_matching_rule_witness:
  "occurs_in ''starbucks'' (toLowerCase ''Starbucks Coffee'')
   \<and> categorizeTransaction ''Starbucks Coffee'' ''SBUX #1234'' = ''Dining''
   \<and> categorizeTransaction ''Rent'' ''Landlord'' = ''Other''"
proof -
  have "toLowerCase ''Starbucks Coffee'' = ''starbucks coffee''"
    by code_simp
  then have "toLowerCase ''Starbucks Coffee'' = [] @ ''starbucks'' @ '' coffee''"
    by simp
  then have h1: "occurs_in ''starbucks'' (toLowerCase ''Starbucks Coffee'')"
    unfolding occurs_in_def by blast
  have h2: "\<forall>r\<in>set CATEGORY_RULES. \<forall>k\<in>set (rule_keywords r).
          \<not> occurs_in k (toLowerCase (''Rent'' @ '' '' @ ''Landlord''))"
    unfolding str_includes_iff [symmetric] by code_simp
  show ?thesis
    using h1 h2 categorize_first_matching_rule [of "''Starbucks Coffee''" "''SBUX #1234''"]
      categorize_first_matching_rule [of "''Rent''" "''Landlord''"]
    by blast
qed

section \<open>The format parsers\<close>

lemma parseExcel_returns: "\<exists>ts. parseExcel num_str today sheet = Inr ts"
  by (simp add: parseExcel_def split: sum.splits)

lemma parsePDF_returns: "parsePDF arrayBuffer = Inr []"
  by (simp add: parsePDF_def)

text \<open>
  Claim C1. The spreadsheet parser and the PDF parser return a list on every input (the two
  lemmas above). The delimited-text parser throws on a data line that has fewer fields than
  the position of the amount column: the method call on the missing field is a
  \<open>TypeError\<close>, and \<open>parseCSV\<close> has no handler for it.
\<close>

theorem parseCSV_short_line_throws:
  "parseCSV ''2026-11-02'' (''date,amount'' @ [newline] @ ''2024-01-05'') = Inl TypeError"
  by code_simp

lemma findIndex_ge: "- 1 \<le> findIndex p xs"
  by (induction xs) (auto simp: Let_def)

lemma findIndex_nonneg_iff: "0 \<le> findIndex p xs \<longleftrightarrow> (\<exists>x\<in>set xs. p x)"
  by (induction xs) (auto simp: Let_def)

lemma find_Some_ex: "(\<exists>k. find p xs = Some k) \<longleftrightarrow> (\<exists>x\<in>set xs. p x)"
  by (induction xs) auto

lemma find_sat: "find p xs = Some k \<Longrightarrow> p k"
  by (induction xs) (auto split: if_splits)

lemma date_name_nonempty: "date_name (toLowerCase k) \<Longrightarrow> k \<noteq> []"
  by (auto simp: date_name_def toLowerCase_def)

lemma amount_name_nonempty: "amount_name (toLowerCase k) \<Longrightarrow> k \<noteq> []"
  by (auto simp: amount_name_def toLowerCase_def)

lemma nan_to_zero_abs: "nan_to_zero (abs_amount s) = (case parseFloat s of None \<Rightarrow> 0 | Some v \<Rightarrow> \<bar>v\<bar>)"
  by (simp add: nan_to_zero_def abs_amount_def split: option.splits)

lemma nan_to_zero_nonneg: "0 \<le> nan_to_zero (abs_amount s)"
  by (simp add: nan_to_zero_abs split: option.splits)


lemma csv_row_None_iff:
  "csv_row today hs l = Inr None \<longleftrightarrow>
     \<not> ((\<exists>h\<in>set hs. date_name h) \<and> (\<exists>h\<in>set hs. amount_name h))"
  unfolding csv_row_def Let_def
  by (auto simp: findIndex_nonneg_iff date_name_def amount_name_def split: option.splits)

lemma csv_row_Some:
  "csv_row today hs l = Inr (Some t) \<Longrightarrow>
     (\<exists>cell. elem_at (csv_cells l) (findIndex amount_name hs) = Some cell \<and>
        amount t = nan_to_zero (abs_amount (strip_non_numeric cell))) \<and>
     date t = str_or (elem_at (csv_cells l) (findIndex date_name hs)) today"
  unfolding csv_row_def Let_def csv_cells_def date_name_def [abs_def] amount_name_def [abs_def]
  by (auto split: option.splits if_splits)

lemma csv_loop_Inr:
  "csv_loop today hs ls acc = Inr ts \<Longrightarrow>
     ts = acc @ List.map_filter (\<lambda>l. case csv_row today hs l of Inr r \<Rightarrow> r | Inl e \<Rightarrow> None) ls"
proof (induction ls arbitrary: acc)
  case Nil
  then show ?case by (simp add: List.map_filter_simps)
next
  case (Cons l ls)
  show ?case
  proof (cases "csv_row today hs l")
    case (Inl e)
    with Cons.prems show ?thesis by simp
  next
    case (Inr r)
    show ?thesis
    proof (cases r)
      case None
      with Inr Cons.prems have "csv_loop today hs ls acc = Inr ts" by simp
      from Cons.IH [OF this] show ?thesis using Inr None by (simp add: List.map_filter_simps)
    next
      case (Some t)
      with Inr Cons.prems have "csv_loop today hs ls (acc @ [t]) = Inr ts" by simp
      from Cons.IH [OF this] show ?thesis using Inr Some by (simp add: List.map_filter_simps)
    qed
  qed
qed

lemma csv_loop_no_throw:
  "csv_loop today hs ls acc = Inr ts \<Longrightarrow> \<forall>l\<in>set ls. csv_row today hs l \<noteq> Inl TypeError"
  by (induction ls arbitrary: acc) (auto split: sum.splits option.splits)


lemma csv_resolved_not_None:
  "(\<exists>h\<in>set hs. date_name h) \<and> (\<exists>h\<in>set hs. amount_name h) \<Longrightarrow> csv_row today hs l \<noteq> Inr None"
  by (simp add: csv_row_None_iff)

lemma map_filter_all_Some:
  "\<forall>x\<in>set xs. f x \<noteq> None \<Longrightarrow> length (List.map_filter f xs) = length xs"
  by (induction xs) (auto simp: List.map_filter_simps split: option.splits)

lemma map_filter_all_None:
  "\<forall>x\<in>set xs. f x = None \<Longrightarrow> List.map_filter f xs = []"
  by (induction xs) (auto simp: List.map_filter_simps split: option.splits)

lemma set_map_filter: "t \<in> set (List.map_filter f xs) \<longleftrightarrow> (\<exists>x\<in>set xs. f x = Some t)"
  by (induction xs) (auto simp: List.map_filter_simps split: option.splits)

lemma parseCSV_Inr:
  assumes "parseCSV today content = Inr ts"
  shows "ts = List.map_filter (\<lambda>l. case csv_row today (csv_headers content) l of Inr r \<Rightarrow> r | Inl e \<Rightarrow> None)
                (tl (csv_lines content))"
    and "\<forall>l\<in>set (tl (csv_lines content)). csv_row today (csv_headers content) l \<noteq> Inl TypeError"
proof -
  show "ts = List.map_filter (\<lambda>l. case csv_row today (csv_headers content) l of Inr r \<Rightarrow> r | Inl e \<Rightarrow> None)
                (tl (csv_lines content))"
  proof (cases "length (csv_lines content) < 2")
    case True
    then have "tl (csv_lines content) = []" by (cases "csv_lines content") auto
    moreover from True assms have "ts = []"
      by (simp add: parseCSV_def Let_def csv_lines_def)
    ultimately show ?thesis by (simp add: List.map_filter_simps)
  next
    case False
    with assms have "csv_loop today (csv_headers content) (tl (csv_lines content)) [] = Inr ts"
      by (simp add: parseCSV_def Let_def csv_lines_def csv_headers_def)
    from csv_loop_Inr [OF this] show ?thesis by simp
  qed
  show "\<forall>l\<in>set (tl (csv_lines content)). csv_row today (csv_headers content) l \<noteq> Inl TypeError"
  proof (cases "length (csv_lines content) < 2")
    case True
    then have "tl (csv_lines content) = []" by (cases "csv_lines content") auto
    then show ?thesis by simp
  next
    case False
    with assms have "csv_loop today (csv_headers content) (tl (csv_lines content)) [] = Inr ts"
      by (simp add: parseCSV_def Let_def csv_lines_def csv_headers_def)
    from csv_loop_no_throw [OF this] show ?thesis .
  qed
qed

lemma csv_row_error: "csv_row today hs l = Inl e \<Longrightarrow> e = TypeError"
  unfolding csv_row_def Let_def by (auto split: option.splits if_splits)

lemma xl_row_None_iff:
  "xl_row num_str today row = None \<longleftrightarrow>
     \<not> ((\<exists>k\<in>set (map fst row). date_name (toLowerCase k)) \<and>
        (\<exists>k\<in>set (map fst row). amount_name (toLowerCase k)))"
proof -
  have d: "key_truthy (find (\<lambda>k. date_name (toLowerCase k)) ks) \<longleftrightarrow> (\<exists>k\<in>set ks. date_name (toLowerCase k))" for ks
    by (induction ks) (auto simp: key_truthy_def dest: date_name_nonempty)
  have a: "key_truthy (find (\<lambda>k. amount_name (toLowerCase k)) ks) \<longleftrightarrow> (\<exists>k\<in>set ks. amount_name (toLowerCase k))" for ks
    by (induction ks) (auto simp: key_truthy_def dest: amount_name_nonempty)
  show ?thesis
    unfolding xl_row_def Let_def
    using d [of "map fst row"] a [of "map fst row"]
    unfolding date_name_def [abs_def] amount_name_def [abs_def]
    by (auto split: if_splits)
qed

lemma xl_row_Some:
  "xl_row num_str today row = Some t \<Longrightarrow>
     (\<exists>k. find (\<lambda>k. amount_name (toLowerCase k)) (map fst row) = Some k \<and>
        amount t = nan_to_zero (abs_amount (strip_non_numeric (js_String num_str (map_of row k))))) \<and>
     (\<exists>k. find (\<lambda>k. date_name (toLowerCase k)) (map fst row) = Some k \<and>
        date t = cell_or (map_of row k) (CStr today))"
  unfolding xl_row_def Let_def date_name_def [abs_def] amount_name_def [abs_def]
  by (auto simp: key_truthy_def key_or_empty_def str_or_def split: option.splits if_splits)

lemma xl_loop_eq: "xl_loop num_str today rows acc = acc @ List.map_filter (xl_row num_str today) rows"
  by (induction rows arbitrary: acc) (auto simp: List.map_filter_simps split: option.splits)


text \<open>
  Claim C2, as stated, fails for delimited text: under the header \<open>amount,date\<close> the data
  line \<open>5\<close> has one field, so no date field, and it is kept, with the current date as its
  date.
\<close>

theorem csv_line_without_date_is_kept:
  "csv_cells ''5'' = [''5'']
   \<and> parseCSV ''2026-11-02'' (''amount,date'' @ [newline] @ ''5'') =
       Inr [\<lparr>date = ''2026-11-02'', merchant = ''Unknown'', amount = 5, category = ''Other'',
             description = Some ''Unknown''\<rparr>]"
  by code_simp

text \<open>
  Claim C2, amended. A row is excluded exactly when no date-bearing or no amount-bearing
  column is resolved. For delimited text the columns are resolved from the header line
  alone: a call that returns keeps every data line when both are resolved and none
  otherwise. For a spreadsheet they are resolved from the keys of the row itself. A kept
  line of delimited text need not hold the date cell: when that cell is missing or empty,
  the transaction carries the current date.
\<close>

theorem row_kept_iff_columns_resolved:
  "(csv_row today hs l = Inr None \<longleftrightarrow>
      \<not> ((\<exists>h\<in>set hs. date_name h) \<and> (\<exists>h\<in>set hs. amount_name h)))
   \<and> (parseCSV today content = Inr ts \<longrightarrow>
        length ts =
          (if (\<exists>h\<in>set (csv_headers content). date_name h) \<and>
              (\<exists>h\<in>set (csv_headers content). amount_name h)
           then length (csv_lines content) - 1 else 0))
   \<and> (xl_row num_str today row = None \<longleftrightarrow>
        \<not> ((\<exists>k\<in>set (map fst row). date_name (toLowerCase k)) \<and>
           (\<exists>k\<in>set (map fst row). amount_name (toLowerCase k))))
   \<and> (csv_row today hs l = Inr (Some t) \<and>
        elem_at (csv_cells l) (findIndex date_name hs) \<in> {None, Some []} \<longrightarrow> date t = today)"
proof (intro conjI impI)
  show "csv_row today hs l = Inr None \<longleftrightarrow>
      \<not> ((\<exists>h\<in>set hs. date_name h) \<and> (\<exists>h\<in>set hs. amount_name h))"
    by (rule csv_row_None_iff)
next
  assume p: "parseCSV today content = Inr ts"
  let ?hs = "csv_headers content"
  let ?f = "\<lambda>l. case csv_row today ?hs l of Inr r \<Rightarrow> r | Inl e \<Rightarrow> None"
  have ts: "ts = List.map_filter ?f (tl (csv_lines content))"
    and nt: "\<forall>l\<in>set (tl (csv_lines content)). csv_row today ?hs l \<noteq> Inl TypeError"
    using parseCSV_Inr [OF p] by blast+
  show "length ts =
          (if (\<exists>h\<in>set ?hs. date_name h) \<and> (\<exists>h\<in>set ?hs. amount_name h)
           then length (csv_lines content) - 1 else 0)"
  proof (cases "(\<exists>h\<in>set ?hs. date_name h) \<and> (\<exists>h\<in>set ?hs. amount_name h)")
    case True
    have "\<forall>l\<in>set (tl (csv_lines content)). ?f l \<noteq> None"
    proof
      fix l assume l: "l \<in> set (tl (csv_lines content))"
      from True have "csv_row today ?hs l \<noteq> Inr None" by (simp add: csv_row_None_iff)
      moreover from nt l have "csv_row today ?hs l \<noteq> Inl TypeError" by blast
      ultimately show "?f l \<noteq> None"
        by (auto split: sum.splits dest: csv_row_error)
    qed
    then have "length ts = length (tl (csv_lines content))"
      unfolding ts by (rule map_filter_all_Some)
    with True show ?thesis by simp
  next
    case False
    then have "\<forall>l. csv_row today ?hs l = Inr None"
      by (simp only: csv_row_None_iff) simp
    then have "\<forall>l\<in>set (tl (csv_lines content)). ?f l = None"
      by simp
    then have "ts = []" unfolding ts by (rule map_filter_all_None)
    with False show ?thesis by auto
  qed
next
  show "xl_row num_str today row = None \<longleftrightarrow>
        \<not> ((\<exists>k\<in>set (map fst row). date_name (toLowerCase k)) \<and>
           (\<exists>k\<in>set (map fst row). amount_name (toLowerCase k)))"
    by (rule xl_row_None_iff)
next
  assume "csv_row today hs l = Inr (Some t) \<and>
        elem_at (csv_cells l) (findIndex date_name hs) \<in> {None, Some []}"
  then show "date t = today"
    using csv_row_Some [of today hs l t] by (auto simp: str_or_def)
qed

theorem row_kept_iff_columns_resolved_witness:
  "parseCSV ''2026-11-02''
      (''Date,Merchant,Amount'' @ [newline] @ ''2024-01-05,Starbucks,-4.50'' @ [newline] @
       ''2024-01-20,Shell Gas,40.00'') =
     Inr [\<lparr>date = ''2024-01-05'', merchant = ''Starbucks'', amount = 9 / 2,
            category = ''Dining'', description = Some ''Starbucks''\<rparr>,
          \<lparr>date = ''2024-01-20'', merchant = ''Shell Gas'', amount = 40,
            category = ''Transport'', description = Some ''Shell Gas''\<rparr>]
   \<and> length (csv_lines (''Date,Merchant,Amount'' @ [newline] @ ''2024-01-05,Starbucks,-4.50'' @
        [newline] @ ''2024-01-20,Shell Gas,40.00'')) - 1 = 2
   \<and> csv_row ''2026-11-02'' [''amount'', ''date''] ''5'' =
       Inr (Some \<lparr>date = ''2026-11-02'', merchant = ''Unknown'', amount = 5, category = ''Other'',
             description = Some ''Unknown''\<rparr>)
   \<and> date \<lparr>date = ''2026-11-02'', merchant = ''Unknown'', amount = 5, category = ''Other'',
             description = Some ''Unknown''\<rparr> = ''2026-11-02''"
proof -
  let ?c = "''Date,Merchant,Amount'' @ [newline] @ ''2024-01-05,Starbucks,-4.50'' @ [newline] @
       ''2024-01-20,Shell Gas,40.00''"
  let ?ts = "[\<lparr>date = ''2024-01-05'', merchant = ''Starbucks'', amount = 9 / 2,
            category = ''Dining'', description = Some ''Starbucks''\<rparr>,
          \<lparr>date = ''2024-01-20'', merchant = ''Shell Gas'', amount = 40,
            category = ''Transport'', description = Some ''Shell Gas''\<rparr>]"
  let ?t = "\<lparr>date = ''2026-11-02'', merchant = ''Unknown'', amount = 5, category = ''Other'',
             description = Some ''Unknown''\<rparr>"
  have p: "parseCSV ''2026-11-02'' ?c = Inr ?ts" by code_simp
  have h: "(\<exists>h\<in>set (csv_headers ?c). date_name h) \<and> (\<exists>h\<in>set (csv_headers ?c). amount_name h)"
    by code_simp
  have r: "csv_row ''2026-11-02'' [''amount'', ''date''] ''5'' = Inr (Some ?t)" by code_simp
  have e: "elem_at (csv_cells ''5'') (findIndex date_name [''amount'', ''date'']) \<in> {None, Some []}"
    by code_simp
  from row_kept_iff_columns_resolved [of "''2026-11-02''" "[''amount'', ''date'']" "''5''" ?c ?ts
       "\<lambda>_. []" "[]" ?t] p h r e
  show ?thesis by simp
qed

lemma parseExcel_Inr:
  "parseExcel num_str today sheet = Inr ts \<Longrightarrow>
     ts = (case sheet of Inl e \<Rightarrow> [] | Inr rows \<Rightarrow> List.map_filter (xl_row num_str today) rows)"
  by (auto simp: parseExcel_def parseExcel_try_def xl_loop_eq List.map_filter_simps
      split: sum.splits if_splits)

lemma csv_kept:
  "(case csv_row today hs l of Inl e \<Rightarrow> None | Inr r \<Rightarrow> r) = Some t \<longleftrightarrow>
     csv_row today hs l = Inr (Some t)"
  by (cases "csv_row today hs l") auto

lemma parseCSV_mem:
  assumes "parseCSV today content = Inr ts" and "t \<in> set ts"
  shows "\<exists>l\<in>set (tl (csv_lines content)). csv_row today (csv_headers content) l = Inr (Some t)"
proof -
  from assms have "t \<in> set (List.map_filter
      (\<lambda>l. case csv_row today (csv_headers content) l of Inr r \<Rightarrow> r | Inl e \<Rightarrow> None)
      (tl (csv_lines content)))"
    using parseCSV_Inr(1) [OF assms(1)] by simp
  then show ?thesis by (simp only: set_map_filter csv_kept)
qed

lemma digit_codes: "map char_of [48 :: nat, 49, 50, 51, 52, 53, 54, 55, 56, 57] = ''0123456789''"
  by code_simp

lemma is_digit_set: "is_digit c \<longleftrightarrow> c \<in> set ''0123456789''"
proof
  assume "is_digit c"
  then have "48 \<le> (of_char c :: nat)" "(of_char c :: nat) \<le> 57"
    by (simp_all add: is_digit_def)
  then have "(of_char c :: nat) \<in> set [48, 49, 50, 51, 52, 53, 54, 55, 56, 57]"
    by (simp del: of_char_eq_iff) arith
  then have "char_of (of_char c :: nat) \<in> set (map char_of [48 :: nat, 49, 50, 51, 52, 53, 54, 55, 56, 57])"
    by (simp only: set_map image_eqI)
  then show "c \<in> set ''0123456789''"
    by (simp only: digit_codes char_of_char)
next
  assume "c \<in> set ''0123456789''"
  moreover have "filter is_digit ''0123456789'' = ''0123456789''" by code_simp
  ultimately have "c \<in> set (filter is_digit ''0123456789'')" by (simp only:)
  then show "is_digit c" by (simp only: set_filter mem_Collect_eq)
qed

lemma is_num_char_set: "is_num_char c \<longleftrightarrow> c \<in> set ''0123456789.-''"
  by (auto simp: is_num_char_def is_digit_set)

lemma strip_non_numeric_set:
  "strip_non_numeric s = filter (\<lambda>c. c \<in> set ''0123456789.-'') s"
  unfolding strip_non_numeric_def by (rule filter_cong) (simp_all only: is_num_char_set)

lemma csv_row_cell:
  assumes "(\<exists>h\<in>set hs. date_name h) \<and> (\<exists>h\<in>set hs. amount_name h)"
    and "elem_at (csv_cells l) (findIndex amount_name hs) = Some c"
  shows "\<exists>t. csv_row today hs l = Inr (Some t) \<and>
           amount t = (case parseFloat (strip_non_numeric c) of None \<Rightarrow> 0 | Some v \<Rightarrow> \<bar>v\<bar>)"
proof -
  from assms(1) have "0 \<le> findIndex date_name hs" "0 \<le> findIndex amount_name hs"
    by (simp_all add: findIndex_nonneg_iff)
  with assms(2) show ?thesis
    unfolding csv_row_def Let_def csv_cells_def date_name_def [abs_def] amount_name_def [abs_def]
    by (simp add: nan_to_zero_abs)
qed

lemma xl_row_cell:
  assumes "\<exists>k\<in>set (map fst row). date_name (toLowerCase k)"
    and "find (\<lambda>k. amount_name (toLowerCase k)) (map fst row) = Some k"
  shows "\<exists>t. xl_row num_str today row = Some t \<and>
           amount t = (case parseFloat (strip_non_numeric (js_String num_str (map_of row k))) of
                         None \<Rightarrow> 0 | Some v \<Rightarrow> \<bar>v\<bar>)"
proof -
  from assms(2) have "amount_name (toLowerCase k)" by (rule find_sat)
  moreover from assms(2) have "k \<in> set (map fst row)"
    by (metis find_Some_iff nth_mem)
  ultimately have "\<exists>k\<in>set (map fst row). amount_name (toLowerCase k)" by blast
  with assms(1) have "xl_row num_str today row \<noteq> None" by (simp add: xl_row_None_iff)
  then obtain t where t: "xl_row num_str today row = Some t" by blast
  from xl_row_Some [OF t] assms(2) have
    "amount t = nan_to_zero (abs_amount (strip_non_numeric (js_String num_str (map_of row k))))"
    by auto
  with t show ?thesis by (simp add: nan_to_zero_abs)
qed

lemma csv_loop_all:
  "\<forall>l\<in>set ls. \<exists>t. csv_row today hs l = Inr (Some t) \<Longrightarrow>
     csv_loop today hs ls acc =
       Inr (acc @ map (\<lambda>l. the (case csv_row today hs l of Inr r \<Rightarrow> r | Inl e \<Rightarrow> None)) ls)"
proof (induction ls arbitrary: acc)
  case Nil
  show ?case by simp
next
  case (Cons l ls)
  from Cons.prems obtain t where t: "csv_row today hs l = Inr (Some t)" by auto
  from Cons.prems have "\<forall>l\<in>set ls. \<exists>t. csv_row today hs l = Inr (Some t)" by simp
  from Cons.IH [OF this, of "acc @ [t]"] t show ?case by simp
qed

lemma parseCSV_all:
  assumes "\<forall>l\<in>set (tl (csv_lines content)). \<exists>t. csv_row today (csv_headers content) l = Inr (Some t)"
  shows "parseCSV today content =
           Inr (map (\<lambda>l. the (case csv_row today (csv_headers content) l of Inr r \<Rightarrow> r | Inl e \<Rightarrow> None))
                  (tl (csv_lines content)))"
proof (cases "length (csv_lines content) < 2")
  case True
  then have "tl (csv_lines content) = []" by (cases "csv_lines content") auto
  with True show ?thesis by (simp add: parseCSV_def Let_def csv_lines_def)
next
  case False
  then have "parseCSV today content = csv_loop today (csv_headers content) (tl (csv_lines content)) []"
    by (simp add: parseCSV_def Let_def csv_lines_def csv_headers_def)
  with csv_loop_all [OF assms, of "[]"] show ?thesis by simp
qed

lemma parseExcel_rows:
  "parseExcel num_str today (Inr rows) = Inr (List.map_filter (xl_row num_str today) rows)"
  by (simp add: parseExcel_def parseExcel_try_def xl_loop_eq List.map_filter_simps)

lemma map_filter_map:
  "\<forall>x\<in>set xs. f x \<noteq> None \<Longrightarrow> List.map_filter f xs = map (\<lambda>x. the (f x)) xs"
  by (induction xs) (auto simp: List.map_filter_simps)

text \<open>
  Claim C3. In every transaction a parser produces, the amount is obtained from the text of
  the amount cell (for a spreadsheet, the cell value converted to a string) by removing
  every character that is not a digit, a dot or a minus sign, parsing the rest as a number
  and taking the absolute value; when the rest does not parse, the amount is \<open>0\<close>. In
  particular the amount is never negative. A row whose date and amount columns are resolved
  and whose amount cell is present is retained whatever the cell holds: \<open>parseCSV\<close>
  returns one transaction for each data line, in order, and \<open>parseExcel\<close> returns the
  transactions of its rows, in order, one for each row when every row has both keys.
\<close>

theorem amount_stripped_abs_or_zero:
  "strip_non_numeric s = filter (\<lambda>c. c \<in> set ''0123456789.-'') s
   \<and> (csv_row today hs l = Inr (Some t) \<longrightarrow>
      (\<exists>cell. elem_at (csv_cells l) (findIndex amount_name hs) = Some cell \<and>
         amount t = (case parseFloat (strip_non_numeric cell) of None \<Rightarrow> 0 | Some v \<Rightarrow> \<bar>v\<bar>)) \<and>
      0 \<le> amount t)
   \<and> (xl_row num_str today row = Some t' \<longrightarrow>
      (\<exists>k. find (\<lambda>k. amount_name (toLowerCase k)) (map fst row) = Some k \<and>
         amount t' = (case parseFloat (strip_non_numeric (js_String num_str (map_of row k))) of
                        None \<Rightarrow> 0 | Some v \<Rightarrow> \<bar>v\<bar>)) \<and>
      0 \<le> amount t')
   \<and> ((\<exists>h\<in>set hs. date_name h) \<and> (\<exists>h\<in>set hs. amount_name h) \<and>
       elem_at (csv_cells l) (findIndex amount_name hs) = Some c \<longrightarrow>
      (\<exists>t. csv_row today hs l = Inr (Some t) \<and>
           amount t = (case parseFloat (strip_non_numeric c) of None \<Rightarrow> 0 | Some v \<Rightarrow> \<bar>v\<bar>)))
   \<and> ((\<exists>k\<in>set (map fst row). date_name (toLowerCase k)) \<and>
       find (\<lambda>k. amount_name (toLowerCase k)) (map fst row) = Some ka \<longrightarrow>
      (\<exists>t. xl_row num_str today row = Some t \<and>
           amount t = (case parseFloat (strip_non_numeric (js_String num_str (map_of row ka))) of
                         None \<Rightarrow> 0 | Some v \<Rightarrow> \<bar>v\<bar>)))
   \<and> ((\<exists>h\<in>set (csv_headers content). date_name h) \<and>
       (\<exists>h\<in>set (csv_headers content). amount_name h) \<and>
       (\<forall>l\<in>set (tl (csv_lines content)).
          elem_at (csv_cells l) (findIndex amount_name (csv_headers content)) \<noteq> None) \<longrightarrow>
      (\<exists>ts. parseCSV today content = Inr ts \<and>
            length ts = length (tl (csv_lines content)) \<and>
            (\<forall>i<length ts. \<exists>cell.
               elem_at (csv_cells (tl (csv_lines content) ! i))
                       (findIndex amount_name (csv_headers content)) = Some cell \<and>
               amount (ts ! i) =
                 (case parseFloat (strip_non_numeric cell) of None \<Rightarrow> 0 | Some v \<Rightarrow> \<bar>v\<bar>))))
   \<and> parseExcel num_str today (Inr rows) = Inr (List.map_filter (xl_row num_str today) rows)
   \<and> ((\<forall>r\<in>set rows. (\<exists>k\<in>set (map fst r). date_name (toLowerCase k)) \<and>
                      (\<exists>k\<in>set (map fst r). amount_name (toLowerCase k))) \<longrightarrow>
      (\<exists>ts. parseExcel num_str today (Inr rows) = Inr ts \<and>
            length ts = length rows \<and>
            (\<forall>i<length ts. \<exists>k.
               find (\<lambda>k. amount_name (toLowerCase k)) (map fst (rows ! i)) = Some k \<and>
               amount (ts ! i) =
                 (case parseFloat (strip_non_numeric (js_String num_str (map_of (rows ! i) k))) of
                    None \<Rightarrow> 0 | Some v \<Rightarrow> \<bar>v\<bar>))))
   \<and> (parseCSV today content = Inr ts \<longrightarrow>
      (\<forall>t\<in>set ts. \<exists>l\<in>set (tl (csv_lines content)).
          csv_row today (csv_headers content) l = Inr (Some t)))
   \<and> (parseExcel num_str today (Inr rows) = Inr ts' \<longrightarrow>
      (\<forall>t\<in>set ts'. \<exists>r\<in>set rows. xl_row num_str today r = Some t))"
proof (intro conjI impI)
  show "strip_non_numeric s = filter (\<lambda>c. c \<in> set ''0123456789.-'') s"
    by (rule strip_non_numeric_set)
next
  assume "csv_row today hs l = Inr (Some t)"
  from csv_row_Some [OF this]
  show "\<exists>cell. elem_at (csv_cells l) (findIndex amount_name hs) = Some cell \<and>
         amount t = (case parseFloat (strip_non_numeric cell) of None \<Rightarrow> 0 | Some v \<Rightarrow> \<bar>v\<bar>)"
    and "0 \<le> amount t"
    by (auto simp: nan_to_zero_abs split: option.splits)
next
  assume "xl_row num_str today row = Some t'"
  from xl_row_Some [OF this]
  show "\<exists>k. find (\<lambda>k. amount_name (toLowerCase k)) (map fst row) = Some k \<and>
         amount t' = (case parseFloat (strip_non_numeric (js_String num_str (map_of row k))) of
                        None \<Rightarrow> 0 | Some v \<Rightarrow> \<bar>v\<bar>)"
    and "0 \<le> amount t'"
    by (auto simp: nan_to_zero_abs split: option.splits)
next
  assume "(\<exists>h\<in>set hs. date_name h) \<and> (\<exists>h\<in>set hs. amount_name h) \<and>
       elem_at (csv_cells l) (findIndex amount_name hs) = Some c"
  then show "\<exists>t. csv_row today hs l = Inr (Some t) \<and>
           amount t = (case parseFloat (strip_non_numeric c) of None \<Rightarrow> 0 | Some v \<Rightarrow> \<bar>v\<bar>)"
    using csv_row_cell [of hs l c today] by blast
next
  assume "(\<exists>k\<in>set (map fst row). date_name (toLowerCase k)) \<and>
       find (\<lambda>k. amount_name (toLowerCase k)) (map fst row) = Some ka"
  then show "\<exists>t. xl_row num_str today row = Some t \<and>
           amount t = (case parseFloat (strip_non_numeric (js_String num_str (map_of row ka))) of
                         None \<Rightarrow> 0 | Some v \<Rightarrow> \<bar>v\<bar>)"
    using xl_row_cell [of row ka num_str today] by blast
next
  let ?hs = "csv_headers content"
  let ?ls = "tl (csv_lines content)"
  let ?f = "\<lambda>l. the (case csv_row today ?hs l of Inr r \<Rightarrow> r | Inl e \<Rightarrow> None)"
  assume a: "(\<exists>h\<in>set ?hs. date_name h) \<and> (\<exists>h\<in>set ?hs. amount_name h) \<and>
       (\<forall>l\<in>set ?ls. elem_at (csv_cells l) (findIndex amount_name ?hs) \<noteq> None)"
  have row: "\<exists>c t. elem_at (csv_cells l) (findIndex amount_name ?hs) = Some c \<and>
                csv_row today ?hs l = Inr (Some t) \<and>
                amount t = (case parseFloat (strip_non_numeric c) of None \<Rightarrow> 0 | Some v \<Rightarrow> \<bar>v\<bar>)"
    if "l \<in> set ?ls" for l
  proof -
    from a that obtain c where c: "elem_at (csv_cells l) (findIndex amount_name ?hs) = Some c"
      by auto
    from csv_row_cell [OF _ c, of today] a c show ?thesis by blast
  qed
  then have "\<forall>l\<in>set ?ls. \<exists>t. csv_row today ?hs l = Inr (Some t)" by blast
  then have p: "parseCSV today content = Inr (map ?f ?ls)" by (rule parseCSV_all)
  have "\<forall>i<length (map ?f ?ls). \<exists>cell.
               elem_at (csv_cells (?ls ! i)) (findIndex amount_name ?hs) = Some cell \<and>
               amount (map ?f ?ls ! i) =
                 (case parseFloat (strip_non_numeric cell) of None \<Rightarrow> 0 | Some v \<Rightarrow> \<bar>v\<bar>)"
  proof (intro allI impI)
    fix i assume "i < length (map ?f ?ls)"
    then have i: "i < length ?ls" by simp
    then have "?ls ! i \<in> set ?ls" by (rule nth_mem)
    from row [OF this] i show "\<exists>cell.
               elem_at (csv_cells (?ls ! i)) (findIndex amount_name ?hs) = Some cell \<and>
               amount (map ?f ?ls ! i) =
                 (case parseFloat (strip_non_numeric cell) of None \<Rightarrow> 0 | Some v \<Rightarrow> \<bar>v\<bar>)"
      by auto
  qed
  with p show "\<exists>ts. parseCSV today content = Inr ts \<and>
            length ts = length ?ls \<and>
            (\<forall>i<length ts. \<exists>cell.
               elem_at (csv_cells (?ls ! i)) (findIndex amount_name ?hs) = Some cell \<and>
               amount (ts ! i) =
                 (case parseFloat (strip_non_numeric cell) of None \<Rightarrow> 0 | Some v \<Rightarrow> \<bar>v\<bar>))"
    by (intro exI [of _ "map ?f ?ls"]) simp
next
  show "parseExcel num_str today (Inr rows) = Inr (List.map_filter (xl_row num_str today) rows)"
    by (rule parseExcel_rows)
next
  let ?g = "\<lambda>r. the (xl_row num_str today r)"
  assume a: "\<forall>r\<in>set rows. (\<exists>k\<in>set (map fst r). date_name (toLowerCase k)) \<and>
                      (\<exists>k\<in>set (map fst r). amount_name (toLowerCase k))"
  then have "\<forall>r\<in>set rows. xl_row num_str today r \<noteq> None"
    by (simp add: xl_row_None_iff)
  then have p: "parseExcel num_str today (Inr rows) = Inr (map ?g rows)"
    by (simp add: parseExcel_rows map_filter_map)
  have "\<forall>i<length (map ?g rows). \<exists>k.
               find (\<lambda>k. amount_name (toLowerCase k)) (map fst (rows ! i)) = Some k \<and>
               amount (map ?g rows ! i) =
                 (case parseFloat (strip_non_numeric (js_String num_str (map_of (rows ! i) k))) of
                    None \<Rightarrow> 0 | Some v \<Rightarrow> \<bar>v\<bar>)"
  proof (intro allI impI)
    fix i assume "i < length (map ?g rows)"
    then have i: "i < length rows" by simp
    then have m: "rows ! i \<in> set rows" by (rule nth_mem)
    with a have "xl_row num_str today (rows ! i) \<noteq> None" by (simp add: xl_row_None_iff)
    then obtain t where t: "xl_row num_str today (rows ! i) = Some t" by blast
    from xl_row_Some [OF t] t i show "\<exists>k.
               find (\<lambda>k. amount_name (toLowerCase k)) (map fst (rows ! i)) = Some k \<and>
               amount (map ?g rows ! i) =
                 (case parseFloat (strip_non_numeric (js_String num_str (map_of (rows ! i) k))) of
                    None \<Rightarrow> 0 | Some v \<Rightarrow> \<bar>v\<bar>)"
      by (auto simp: nan_to_zero_abs)
  qed
  with p show "\<exists>ts. parseExcel num_str today (Inr rows) = Inr ts \<and>
            length ts = length rows \<and>
            (\<forall>i<length ts. \<exists>k.
               find (\<lambda>k. amount_name (toLowerCase k)) (map fst (rows ! i)) = Some k \<and>
               amount (ts ! i) =
                 (case parseFloat (strip_non_numeric (js_String num_str (map_of (rows ! i) k))) of
                    None \<Rightarrow> 0 | Some v \<Rightarrow> \<bar>v\<bar>))"
    by (intro exI [of _ "map ?g rows"]) simp
next
  assume p: "parseCSV today content = Inr ts"
  show "\<forall>t\<in>set ts. \<exists>l\<in>set (tl (csv_lines content)).
          csv_row today (csv_headers content) l = Inr (Some t)"
    using parseCSV_mem [OF p] by blast
next
  assume p: "parseExcel num_str today (Inr rows) = Inr ts'"
  show "\<forall>t\<in>set ts'. \<exists>r\<in>set rows. xl_row num_str today r = Some t"
    using parseExcel_Inr [OF p] by (simp add: set_map_filter)
qed

theorem amount_stripped_abs_or_zero_witness:
  "parseCSV ''2026-11-02''
      (''Date,Merchant,Amount'' @ [newline] @ ''2024-01-05,Cafe Rio,N/A'' @ [newline] @
       ''2024-01-06, Shell, $-12.50'') =
     Inr [\<lparr>date = ''2024-01-05'', merchant = ''Cafe Rio'', amount = 0,
            category = ''Dining'', description = Some ''Cafe Rio''\<rparr>,
          \<lparr>date = ''2024-01-06'', merchant = ''Shell'', amount = 25 / 2,
            category = ''Transport'', description = Some ''Shell''\<rparr>]
   \<and> length (tl (csv_lines (''Date,Merchant,Amount'' @ [newline] @ ''2024-01-05,Cafe Rio,N/A'' @
        [newline] @ ''2024-01-06, Shell, $-12.50''))) = 2
   \<and> strip_non_numeric ''$-12.50'' = ''-12.50''
   \<and> parseFloat ''-12.50'' = Some (- (25 / 2))
   \<and> parseFloat (strip_non_numeric ''N/A'') = None
   \<and> parseExcel (\<lambda>n. []) ''2026-11-02''
        (Inr [[(''Date'', CStr ''2024-01-05''), (''Total'', CStr ''(7.25)'')],
              [(''Date'', CStr ''2024-01-06''), (''Amount'', CStr ''N/A'')]]) =
       Inr [\<lparr>date = CStr ''2024-01-05'', merchant = CStr ''Unknown'', amount = 29 / 4,
              category = CStr ''Uncategorized'', description = None\<rparr>,
            \<lparr>date = CStr ''2024-01-06'', merchant = CStr ''Unknown'', amount = 0,
              category = CStr ''Uncategorized'', description = None\<rparr>]"
proof -
  let ?c = "''Date,Merchant,Amount'' @ [newline] @ ''2024-01-05,Cafe Rio,N/A'' @ [newline] @
       ''2024-01-06, Shell, $-12.50''"
  let ?t1 = "\<lparr>date = ''2024-01-05'', merchant = ''Cafe Rio'', amount = 0,
            category = ''Dining'', description = Some ''Cafe Rio''\<rparr>"
  let ?t2 = "\<lparr>date = ''2024-01-06'', merchant = ''Shell'', amount = 25 / 2,
            category = ''Transport'', description = Some ''Shell''\<rparr>"
  let ?rows = "[[(''Date'', CStr ''2024-01-05''), (''Total'', CStr ''(7.25)'')],
              [(''Date'', CStr ''2024-01-06''), (''Amount'', CStr ''N/A'')]]"
  let ?x1 = "\<lparr>date = CStr ''2024-01-05'', merchant = CStr ''Unknown'', amount = 29 / 4,
              category = CStr ''Uncategorized'', description = None\<rparr>"
  let ?x2 = "\<lparr>date = CStr ''2024-01-06'', merchant = CStr ''Unknown'', amount = 0,
              category = CStr ''Uncategorized'', description = None\<rparr>"
  note T = amount_stripped_abs_or_zero [where content = ?c and today = "''2026-11-02''"
      and num_str = "\<lambda>n. []" and rows = ?rows]
  have hyp: "(\<exists>h\<in>set (csv_headers ?c). date_name h) \<and>
       (\<exists>h\<in>set (csv_headers ?c). amount_name h) \<and>
       (\<forall>l\<in>set (tl (csv_lines ?c)).
          elem_at (csv_cells l) (findIndex amount_name (csv_headers ?c)) \<noteq> None)"
    by code_simp
  have len: "length (tl (csv_lines ?c)) = 2" by code_simp
  note c6 = T [THEN conjunct2, THEN conjunct2, THEN conjunct2, THEN conjunct2, THEN conjunct2,
      THEN conjunct1]
  note c7 = T [THEN conjunct2, THEN conjunct2, THEN conjunct2, THEN conjunct2, THEN conjunct2,
      THEN conjunct2, THEN conjunct1]
  from c6 [THEN mp, OF hyp] obtain ts where ts: "parseCSV ''2026-11-02'' ?c = Inr ts"
    and l: "length ts = length (tl (csv_lines ?c))"
    by blast
  have p: "parseCSV ''2026-11-02'' ?c = Inr [?t1, ?t2]" by code_simp
  have s1: "strip_non_numeric ''$-12.50'' = ''-12.50''" by code_simp
  have p1: "parseFloat ''-12.50'' = Some (- (25 / 2))" by code_simp
  have p2: "parseFloat (strip_non_numeric ''N/A'') = None" by code_simp
  have m: "List.map_filter (xl_row (\<lambda>n. []) ''2026-11-02'') ?rows = [?x1, ?x2]" by code_simp
  from c7 have "parseExcel (\<lambda>n. []) ''2026-11-02'' (Inr ?rows) =
                 Inr (List.map_filter (xl_row (\<lambda>n. []) ''2026-11-02'') ?rows)" .
  then have x: "parseExcel (\<lambda>n. []) ''2026-11-02'' (Inr ?rows) = Inr [?x1, ?x2]"
    by (simp only: m)
  from p len s1 p1 p2 x ts l show ?thesis by (intro conjI)
qed




section \<open>Rounding\<close>

lemma round_half_even_nonneg: "0 \<le> m \<Longrightarrow> 0 \<le> round_half_even m"
  by (auto simp: round_half_even_def Let_def)

lemma round_half_even_pos: "1 \<le> m \<Longrightarrow> 0 < round_half_even m"
proof -
  assume "1 \<le> m"
  then have "1 \<le> \<lfloor>m\<rfloor>" by simp
  then show ?thesis by (auto simp: round_half_even_def Let_def)
qed

lemma fl_zero [simp]: "fl 0 = 0"
  by (simp add: fl_def)

lemma fl_minus: "fl (- x) = - fl x"
  by (simp add: fl_def Let_def sgn_minus)

lemma fl_nonneg: "0 \<le> x \<Longrightarrow> 0 \<le> fl x"
proof (cases "x = 0")
  case True
  then show ?thesis by simp
next
  case False
  assume "0 \<le> x"
  with False have x: "0 < x" by simp
  let ?e = "ilog2 \<bar>x\<bar> - 52"
  have "0 \<le> \<bar>x\<bar> / 2 powi ?e" by simp
  then have "0 \<le> round_half_even (\<bar>x\<bar> / 2 powi ?e)" by (rule round_half_even_nonneg)
  then have "0 \<le> (of_int (round_half_even (\<bar>x\<bar> / 2 powi ?e)) :: rat) * 2 powi ?e" by simp
  with x False show ?thesis by (simp add: fl_def Let_def)
qed

lemma ilog2_le:
  assumes "0 < x"
  shows "2 powi ilog2 x \<le> x"
proof -
  obtain p q where pq: "quotient_of x = (p, q)" by (cases "quotient_of x")
  then have q: "0 < q" by (rule quotient_of_denom_pos)
  from pq have x: "x = of_int p / of_int q" by (rule quotient_of_div)
  with assms q have p: "0 < p" by (simp add: zero_less_divide_iff)
  let ?k = "bitlen p - bitlen q"
  show ?thesis
  proof (cases "2 powi ?k \<le> x")
    case True
    then show ?thesis by (simp add: ilog2_def pq Let_def)
  next
    case False
    have bp: "1 \<le> bitlen p" and bq: "1 \<le> bitlen q"
      using p q bitlen_eq_zero_iff [of p] bitlen_eq_zero_iff [of q] bitlen_nonneg [of p]
        bitlen_nonneg [of q] by linarith+
    have "2 ^ nat (bitlen p - 1) \<le> p" using bitlen_bounds [OF p] by simp
    then have lp: "(2::rat) ^ nat (bitlen p - 1) \<le> of_int p"
      by (metis of_int_le_iff of_int_numeral of_int_power)
    have "q < 2 ^ nat (bitlen q)" using bitlen_bounds [OF q] by simp
    then have "(of_int q :: rat) < 2 ^ nat (bitlen q)"
      by (metis of_int_less_iff of_int_numeral of_int_power)
    then have lq: "(of_int q :: rat) \<le> 2 ^ nat (bitlen q)" by simp
    have "(2::rat) powi (?k - 1) = 2 powi (bitlen p - 1) / 2 powi (bitlen q)"
      by (simp add: power_int_diff)
    also have "\<dots> = 2 ^ nat (bitlen p - 1) / 2 ^ nat (bitlen q)"
      using bp bq by (simp add: power_int_nonneg_exp)
    also have "\<dots> \<le> of_int p / of_int q"
      using lp lq q p by (intro frac_le) auto
    finally have "2 powi (?k - 1) \<le> x" by (simp add: x)
    with False show ?thesis by (simp add: ilog2_def pq Let_def)
  qed
qed

lemma fl_pos:
  assumes "0 < x"
  shows "0 < fl x"
proof -
  let ?e = "ilog2 \<bar>x\<bar> - 52"
  from assms have ax: "\<bar>x\<bar> = x" by simp
  have "2 powi ilog2 x \<le> x" using assms by (rule ilog2_le)
  then have "1 \<le> x / 2 powi ilog2 x" by (simp add: le_divide_eq)
  moreover have "x / 2 powi (ilog2 x - 52) = x / 2 powi ilog2 x * 2 ^ 52"
    by (simp add: power_int_diff)
  moreover have "1 * 1 \<le> x / 2 powi ilog2 x * 2 ^ 52" if "1 \<le> x / 2 powi ilog2 x"
    by (rule mult_mono) (use that assms in \<open>auto simp: order.strict_implies_order\<close>)
  ultimately have "1 \<le> x / 2 powi (ilog2 x - 52)"
    by simp
  then have "0 < round_half_even (x / 2 powi (ilog2 x - 52))" by (rule round_half_even_pos)
  then have "0 < (of_int (round_half_even (x / 2 powi (ilog2 x - 52))) :: rat) * 2 powi (ilog2 x - 52)"
    by simp
  with assms show ?thesis by (simp add: fl_def Let_def)
qed

lemma fl_le_zero_iff: "fl x \<le> 0 \<longleftrightarrow> x \<le> 0"
proof
  assume "fl x \<le> 0"
  show "x \<le> 0"
  proof (rule ccontr)
    assume "\<not> x \<le> 0"
    then have "0 < fl x" by (simp add: fl_pos)
    with \<open>fl x \<le> 0\<close> show False by simp
  qed
next
  assume "x \<le> 0"
  then have "0 \<le> fl (- x)" by (simp add: fl_nonneg)
  then show "fl x \<le> 0" by (simp add: fl_minus)
qed

lemma fsub_le_zero_iff: "fsub b a \<le> 0 \<longleftrightarrow> b \<le> a"
  by (simp add: fsub_def fl_le_zero_iff)

lemma fadd_nonneg: "0 \<le> a \<Longrightarrow> 0 \<le> b \<Longrightarrow> 0 \<le> fadd a b"
  by (simp add: fadd_def fl_nonneg)

lemma fmul_nonneg: "0 \<le> a \<Longrightarrow> 0 \<le> b \<Longrightarrow> 0 \<le> fmul a b"
  by (simp add: fmul_def fl_nonneg)

section \<open>Objects\<close>

lemma first_seen_snoc:
  "first_seen (xs @ [x]) = (if x \<in> set xs then first_seen xs else first_seen xs @ [x])"
  by (simp add: first_seen_def)

lemma set_first_seen [simp]: "set (first_seen xs) = set xs"
  by (simp add: first_seen_def)

lemma distinct_first_seen [simp]: "distinct (first_seen xs)"
  by (simp add: first_seen_def)

lemma obj_get_set: "obj_get (obj_set ob k v) k' = (if k' = k then Some v else obj_get ob k')"
  by (induction ob) (auto simp: obj_get_def)

lemma keys_obj_set:
  "map fst (obj_set ob k v) = (if k \<in> set (map fst ob) then map fst ob else map fst ob @ [k])"
  by (induction ob) auto

lemma obj_get_None_iff: "obj_get ob k = None \<longleftrightarrow> k \<notin> set (map fst ob)"
  by (simp add: obj_get_def map_of_eq_None_iff)

lemma keys_add_to:
  "map fst (add_to ob k a) = (if k \<in> set (map fst ob) then map fst ob else map fst ob @ [k])"
  by (simp add: add_to_def keys_obj_set)

lemma keys_group:
  "map fst (foldl (\<lambda>ob t. add_to ob (key t) (amount t)) [] ts) = first_seen (map key ts)"
proof (induction ts rule: rev_induct)
  case Nil
  show ?case by (simp add: first_seen_def)
next
  case (snoc t ts)
  then show ?case by (simp add: keys_add_to first_seen_snoc)
qed

lemma obj_get_add_to:
  "obj_get (add_to ob k a) k' =
     (if k' = k then Some (fadd (case obj_get ob k of None \<Rightarrow> 0 | Some v \<Rightarrow> v) a)
      else obj_get ob k')"
  by (simp add: add_to_def obj_get_set)

lemma get_group:
  "obj_get (foldl (\<lambda>ob t. add_to ob (key t) (amount t)) ob0 ts) k =
     (if \<exists>t\<in>set ts. key t = k
      then Some (foldl fadd (case obj_get ob0 k of None \<Rightarrow> 0 | Some v \<Rightarrow> v)
                   (map amount (filter (\<lambda>t. key t = k) ts)))
      else obj_get ob0 k)"
proof (induction ts arbitrary: ob0)
  case Nil
  show ?case by simp
next
  case (Cons t ts)
  show ?case
  proof (cases "key t = k")
    case True
    then show ?thesis
      by (simp add: Cons.IH obj_get_add_to)
  next
    case False
    then show ?thesis
      by (simp add: Cons.IH obj_get_add_to)
  qed
qed

lemma length_obj_entries [simp]: "length (obj_entries ob) = length ob"
  by (simp add: obj_entries_def sum_length_filter_compl)

lemma set_obj_entries [simp]: "set (obj_entries ob) = set ob"
  by (auto simp: obj_entries_def)

lemma length_obj_keys [simp]: "length (obj_keys ob) = length ob"
  by (simp add: obj_keys_def)

lemma set_obj_keys [simp]: "set (obj_keys ob) = fst ` set ob"
  by (simp add: obj_keys_def)

lemma by_month_keys: "map fst (by_month ts) = first_seen (map month_of ts)"
  unfolding by_month_def Let_def month_of_def [symmetric] by (rule keys_group)

lemma by_category_keys: "map fst (by_category ts) = first_seen (map category ts)"
  unfolding by_category_def by (rule keys_group)

lemma length_by_month: "length (by_month ts) = card (month_of ` set ts)"
proof -
  have "length (by_month ts) = length (map fst (by_month ts))" by simp
  also have "\<dots> = card (set (first_seen (map month_of ts)))"
    unfolding by_month_keys by (simp only: distinct_card [OF distinct_first_seen])
  finally show ?thesis by simp
qed

lemma by_category_get:
  "obj_get (by_category ts) c =
     (if c \<in> category ` set ts
      then Some (float_sum (map amount (filter (\<lambda>t. category t = c) ts))) else None)"
  unfolding by_category_def get_group float_sum_def by (auto simp: obj_get_def)

lemma by_month_get:
  "obj_get (by_month ts) m =
     (if m \<in> month_of ` set ts
      then Some (float_sum (map amount (filter (\<lambda>t. month_of t = m) ts))) else None)"
  unfolding by_month_def Let_def month_of_def [symmetric] get_group float_sum_def
  by (auto simp: obj_get_def)

section \<open>The report\<close>

lemma float_sum_nonneg: "\<forall>x\<in>set xs. 0 \<le> x \<Longrightarrow> 0 \<le> a \<Longrightarrow> 0 \<le> foldl fadd a xs"
  by (induction xs arbitrary: a) (auto simp: fadd_nonneg)

lemma total_spent_sum: "total_spent ts = float_sum (map amount ts)"
  by (simp add: total_spent_def float_sum_def foldl_map)

lemma total_spent_nonneg: "\<forall>t\<in>set ts. 0 \<le> amount t \<Longrightarrow> 0 \<le> total_spent ts"
  unfolding total_spent_sum float_sum_def by (rule float_sum_nonneg) auto

lemma report_fields:
  assumes "ts \<noteq> []"
  shows "totals (generateReport ts) =
           \<lparr>transactionCount = length ts, totalSpent = total_spent ts,
            avgSpendPerTxn = fdiv (total_spent ts) (of_nat (length ts))\<rparr>"
    and "byCategory (generateReport ts) = by_category ts"
    and "byMonth (generateReport ts) = by_month ts"
    and "topMerchants (generateReport ts) = top_merchants ts"
    and "budget (generateReport ts) = budget_of (by_category ts)"
    and "forecast (generateReport ts) = forecast_of (by_month ts)"
    and "healthScore (generateReport ts) = health_of (total_spent ts) (by_category ts) (by_month ts)"
    and "periodHint (generateReport ts) = period_of ts (by_month ts)"
  using assms by (simp_all add: generateReport_def Let_def)

lemma report_empty:
  "generateReport [] =
     \<lparr>totals = \<lparr>transactionCount = 0, totalSpent = 0, avgSpendPerTxn = 0\<rparr>,
      byCategory = [], byMonth = [], topMerchants = [], budget = [], forecast = None,
      healthScore = \<lparr>score = 0, summary = ''No data available''\<rparr>,
      periodHint = \<lparr>ph_start = [], ph_end = [], monthsDetected = 0\<rparr>\<rparr>"
  by (simp add: generateReport_def)

text \<open>
  Claim C6. For a non-empty list of transactions with non-negative amounts, the health
  score is 75, less 15 when the total spent divided by the number of distinct months
  exceeds 3000, less a further 10 when that average exceeds 5000, less 10 when the spend of
  category \<open>Dining\<close> exceeds 30 per cent of the total spent (the product of the total and
  the double \<open>0.3\<close>), clamped to the range from 0 to 100; the summary is the one that the
  thresholds 80 and 60 give for the clamped score.
\<close>

theorem health_score_rule:
  assumes "ts \<noteq> []" and "\<forall>t\<in>set ts. 0 \<le> amount t"
  shows "score (healthScore (generateReport ts)) =
           max 0 (min 100 (spec_health_raw (totalSpent (totals (generateReport ts)))
              (card (month_of ` set ts))
              (case obj_get (byCategory (generateReport ts)) ''Dining'' of
                 None \<Rightarrow> 0 | Some d \<Rightarrow> d)))
         \<and> 0 \<le> score (healthScore (generateReport ts))
         \<and> score (healthScore (generateReport ts)) \<le> 100
         \<and> summary (healthScore (generateReport ts)) =
             spec_summary (score (healthScore (generateReport ts)))"
proof -
  let ?total = "total_spent ts"
  have t0: "0 \<le> ?total" using assms(2) by (rule total_spent_nonneg)
  then have m0: "0 \<le> fmul ?total (fl (3 / 10))"
    by (intro fmul_nonneg fl_nonneg) auto
  have dining: "(case obj_get (by_category ts) ''Dining'' of
                   None \<Rightarrow> False | Some d \<Rightarrow> d \<noteq> 0 \<and> fmul ?total (fl (3 / 10)) < d) \<longleftrightarrow>
                fmul ?total (fl (3 / 10)) <
                  (case obj_get (by_category ts) ''Dining'' of None \<Rightarrow> 0 | Some d \<Rightarrow> d)"
    using m0 by (auto split: option.splits)
  show ?thesis
    unfolding report_fields [OF assms(1)] health_of_def Let_def dining
      length_obj_keys length_by_month spec_health_raw_def spec_summary_def
    by simp
qed


theorem health_score_rule_witness:
  "score (healthScore (generateReport
      [\<lparr>date = ''2024-01-05'', merchant = ''Cafe'', amount = 6500, category = ''Dining'',
        description = None\<rparr>])) = 40
   \<and> summary (healthScore (generateReport
      [\<lparr>date = ''2024-01-05'', merchant = ''Cafe'', amount = 6500, category = ''Dining'',
        description = None\<rparr>])) = ''Consider reducing spending''"
proof -
  let ?ts = "[\<lparr>date = ''2024-01-05'', merchant = ''Cafe'', amount = 6500, category = ''Dining'',
        description = None :: string option\<rparr>]"
  have h1: "?ts \<noteq> []" by simp
  have h2: "\<forall>t\<in>set ?ts. 0 \<le> amount t" by simp
  have t: "total_spent ?ts = 6500" by code_simp
  have c: "obj_get (by_category ?ts) ''Dining'' = Some 6500" by code_simp
  have m: "card (month_of ` set ?ts) = Suc 0" by simp
  have raw: "spec_health_raw 6500 (Suc 0) 6500 = 40" by code_simp
  have s: "spec_summary 40 = ''Consider reducing spending''" by code_simp
  from health_score_rule [OF h1 h2] show ?thesis
    unfolding report_fields [OF h1] by (simp add: t c m raw s)
qed

lemma partition_sum:
  "distinct ks \<Longrightarrow> key ` set ts \<subseteq> set ks \<Longrightarrow>
     (\<Sum>k\<leftarrow>ks. sum_list (map f (filter (\<lambda>t. key t = k) ts))) = (sum_list (map f ts) :: rat)"
proof (induction ts)
  case Nil
  show ?case by simp
next
  case (Cons t ts)
  have "(\<Sum>k\<leftarrow>ks. sum_list (map f (filter (\<lambda>t. key t = k) (t # ts)))) =
        (\<Sum>k\<leftarrow>ks. (if key t = k then f t else 0) + sum_list (map f (filter (\<lambda>t. key t = k) ts)))"
    by (intro arg_cong [where f = sum_list] map_cong) auto
  also have "\<dots> = (\<Sum>k\<leftarrow>ks. if key t = k then f t else 0) +
                   (\<Sum>k\<leftarrow>ks. sum_list (map f (filter (\<lambda>t. key t = k) ts)))"
    by (rule sum_list_addf)
  also have "(\<Sum>k\<leftarrow>ks. if key t = k then f t else 0) = f t"
    using Cons.prems by (simp add: sum_list_distinct_conv_sum_set sum.delta')
  finally show ?case using Cons by simp
qed

text \<open>
  Claim C7, as stated, fails: additions of doubles round, so the sum of the values of a
  grouping need not be the total. For the amounts \<open>0.1\<close>, \<open>0.2\<close> and \<open>0.4\<close>, the first
  and the third in one category and one month, the total is \<open>0.7000000000000001\<close> while
  both groupings hold \<open>0.5\<close> and \<open>0.2\<close>, whose sum, in double arithmetic and exactly,
  is not that number.
\<close>

theorem grouping_sums_differ_from_total:
  "totalSpent (totals (generateReport
      [\<lparr>date = ''2024-01-05'', merchant = ''a'', amount = fl (1 / 10), category = ''A'', description = None\<rparr>,
       \<lparr>date = ''2024-02-20'', merchant = ''b'', amount = fl (1 / 5), category = ''B'', description = None\<rparr>,
       \<lparr>date = ''2024-01-21'', merchant = ''c'', amount = fl (2 / 5), category = ''A'', description = None\<rparr>]))
     = 6305039478318695 / 9007199254740992
   \<and> byCategory (generateReport
      [\<lparr>date = ''2024-01-05'', merchant = ''a'', amount = fl (1 / 10), category = ''A'', description = None\<rparr>,
       \<lparr>date = ''2024-02-20'', merchant = ''b'', amount = fl (1 / 5), category = ''B'', description = None\<rparr>,
       \<lparr>date = ''2024-01-21'', merchant = ''c'', amount = fl (2 / 5), category = ''A'', description = None\<rparr>])
     = [(''A'', 1 / 2), (''B'', 3602879701896397 / 18014398509481984)]
   \<and> byMonth (generateReport
      [\<lparr>date = ''2024-01-05'', merchant = ''a'', amount = fl (1 / 10), category = ''A'', description = None\<rparr>,
       \<lparr>date = ''2024-02-20'', merchant = ''b'', amount = fl (1 / 5), category = ''B'', description = None\<rparr>,
       \<lparr>date = ''2024-01-21'', merchant = ''c'', amount = fl (2 / 5), category = ''A'', description = None\<rparr>])
     = [(''2024-01'', 1 / 2), (''2024-02'', 3602879701896397 / 18014398509481984)]
   \<and> values_sum [(''A'', 1 / 2), (''B'', 3602879701896397 / 18014398509481984)]
     = 6305039478318694 / 9007199254740992
   \<and> values_sum [(''2024-01'', 1 / 2), (''2024-02'', 3602879701896397 / 18014398509481984)]
     = 6305039478318694 / 9007199254740992
   \<and> (1 / 2 + 3602879701896397 / 18014398509481984 :: rat) \<noteq> 6305039478318695 / 9007199254740992"
proof -
  let ?ts = "[\<lparr>date = ''2024-01-05'', merchant = ''a'', amount = fl (1 / 10), category = ''A'', description = None :: string option\<rparr>,
       \<lparr>date = ''2024-02-20'', merchant = ''b'', amount = fl (1 / 5), category = ''B'', description = None\<rparr>,
       \<lparr>date = ''2024-01-21'', merchant = ''c'', amount = fl (2 / 5), category = ''A'', description = None\<rparr>]"
  have a1: "fl (1 / 10) = 3602879701896397 / 36028797018963968" by code_simp
  have a2: "fl (1 / 5) = 3602879701896397 / 18014398509481984" by code_simp
  have a3: "fl (2 / 5) = 3602879701896397 / 9007199254740992" by code_simp
  have s1: "fadd 0 (3602879701896397 / 36028797018963968) = 3602879701896397 / 36028797018963968"
    by code_simp
  have s2: "fadd (3602879701896397 / 36028797018963968) (3602879701896397 / 18014398509481984)
              = 1351079888211149 / 4503599627370496" by code_simp
  have s3: "fadd (1351079888211149 / 4503599627370496) (3602879701896397 / 9007199254740992)
              = 6305039478318695 / 9007199254740992" by code_simp
  have g1: "fadd (3602879701896397 / 36028797018963968) (3602879701896397 / 9007199254740992) = 1 / 2"
    by code_simp
  have g2: "fadd 0 (3602879701896397 / 18014398509481984) = 3602879701896397 / 18014398509481984"
    by code_simp
  have v1: "fadd 0 (1 / 2) = 1 / 2" by code_simp
  have v2: "fadd (1 / 2) (3602879701896397 / 18014398509481984) = 6305039478318694 / 9007199254740992"
    by code_simp
  have ne: "?ts \<noteq> []" by simp
  have tot: "total_spent ?ts = 6305039478318695 / 9007199254740992"
    by (simp add: total_spent_def a1 a2 a3 s1 s2 s3)
  have cat: "by_category ?ts = [(''A'', 1 / 2), (''B'', 3602879701896397 / 18014398509481984)]"
    by (simp add: by_category_def add_to_def obj_get_def a1 a2 a3 s1 g1 g2)
  have mon: "by_month ?ts = [(''2024-01'', 1 / 2), (''2024-02'', 3602879701896397 / 18014398509481984)]"
    by (simp add: by_month_def add_to_def obj_get_def a1 a2 a3 s1 g1 g2)
  have i1: "\<not> is_array_index ''A''" "\<not> is_array_index ''B''"
    "\<not> is_array_index ''2024-01''" "\<not> is_array_index ''2024-02''"
    by code_simp+
  have vs1: "values_sum [(''A'', 1 / 2), (''B'', 3602879701896397 / 18014398509481984)]
     = 6305039478318694 / 9007199254740992"
    by (simp add: values_sum_def float_sum_def obj_entries_def i1 v1 v2)
  have vs2: "values_sum [(''2024-01'', 1 / 2), (''2024-02'', 3602879701896397 / 18014398509481984)]
     = 6305039478318694 / 9007199254740992"
    by (simp add: values_sum_def float_sum_def obj_entries_def i1 v1 v2)
  show ?thesis
    unfolding report_fields [OF ne] by (simp add: tot cat mon vs1 vs2)
qed

text \<open>
  Claim C7, amended. \<open>totalSpent\<close> is the sum of all amounts added from left to right in
  double arithmetic, and \<open>avgSpendPerTxn\<close> is \<open>totalSpent\<close> divided by the count (zero for
  the empty list). \<open>byCategory\<close> and \<open>byMonth\<close> have one entry for each category and each
  month that occurs, whose value is the sum, added from left to right in double arithmetic,
  of the amounts of exactly the transactions of that category or month. The groups
  partition the list: every transaction is counted exactly once in each grouping, so that
  adding the amounts group by group in exact arithmetic gives the exact sum of all amounts.
  (The sums of the values of the groupings agree with \<open>totalSpent\<close> only up to rounding.
  Categories and months are assumed not to name a member of \<^verbatim>\<open>Object.prototype\<close>.)
\<close>

theorem totals_and_groupings:
  assumes "\<forall>t\<in>set ts. plain_key (category t) \<and> plain_key (month_of t)"
  shows "transactionCount (totals (generateReport ts)) = length ts
    \<and> totalSpent (totals (generateReport ts)) = float_sum (map amount ts)
    \<and> avgSpendPerTxn (totals (generateReport ts)) =
        (if ts = [] then 0 else fdiv (float_sum (map amount ts)) (of_nat (length ts)))
    \<and> distinct (map fst (byCategory (generateReport ts)))
    \<and> set (map fst (byCategory (generateReport ts))) = category ` set ts
    \<and> (\<forall>c\<in>category ` set ts. obj_get (byCategory (generateReport ts)) c =
          Some (float_sum (map amount (filter (\<lambda>t. category t = c) ts))))
    \<and> (\<Sum>c\<leftarrow>map fst (byCategory (generateReport ts)).
          sum_list (map amount (filter (\<lambda>t. category t = c) ts))) = sum_list (map amount ts)
    \<and> distinct (map fst (byMonth (generateReport ts)))
    \<and> set (map fst (byMonth (generateReport ts))) = month_of ` set ts
    \<and> (\<forall>m\<in>month_of ` set ts. obj_get (byMonth (generateReport ts)) m =
          Some (float_sum (map amount (filter (\<lambda>t. month_of t = m) ts))))
    \<and> (\<Sum>m\<leftarrow>map fst (byMonth (generateReport ts)).
          sum_list (map amount (filter (\<lambda>t. month_of t = m) ts))) = sum_list (map amount ts)"
proof (cases "ts = []")
  case True
  then show ?thesis by (simp add: report_empty float_sum_def)
next
  case False
  have c: "(\<Sum>c\<leftarrow>first_seen (map category ts).
          sum_list (map amount (filter (\<lambda>t. category t = c) ts))) = sum_list (map amount ts)"
    by (rule partition_sum) auto
  have m: "(\<Sum>m\<leftarrow>first_seen (map month_of ts).
          sum_list (map amount (filter (\<lambda>t. month_of t = m) ts))) = sum_list (map amount ts)"
    by (rule partition_sum) auto
  show ?thesis
    unfolding report_fields [OF False] by_category_keys by_month_keys
    using False c m by (simp add: total_spent_sum by_category_get by_month_get)
qed

theorem totals_and_groupings_witness:
  "totalSpent (totals (generateReport
      [\<lparr>date = ''2024-01-05'', merchant = ''Starbucks'', amount = 9 / 2, category = ''Dining'',
        description = None\<rparr>,
       \<lparr>date = ''2024-01-20'', merchant = ''Shell Gas'', amount = 40, category = ''Transport'',
        description = None\<rparr>])) = 89 / 2
   \<and> avgSpendPerTxn (totals (generateReport
      [\<lparr>date = ''2024-01-05'', merchant = ''Starbucks'', amount = 9 / 2, category = ''Dining'',
        description = None\<rparr>,
       \<lparr>date = ''2024-01-20'', merchant = ''Shell Gas'', amount = 40, category = ''Transport'',
        description = None\<rparr>])) = 89 / 4
   \<and> obj_get (byMonth (generateReport
      [\<lparr>date = ''2024-01-05'', merchant = ''Starbucks'', amount = 9 / 2, category = ''Dining'',
        description = None\<rparr>,
       \<lparr>date = ''2024-01-20'', merchant = ''Shell Gas'', amount = 40, category = ''Transport'',
        description = None\<rparr>])) ''2024-01'' = Some (89 / 2)"
proof -
  let ?ts = "[\<lparr>date = ''2024-01-05'', merchant = ''Starbucks'', amount = 9 / 2, category = ''Dining'',
        description = None :: string option\<rparr>,
       \<lparr>date = ''2024-01-20'', merchant = ''Shell Gas'', amount = 40, category = ''Transport'',
        description = None\<rparr>]"
  have h: "\<forall>t\<in>set ?ts. plain_key (category t) \<and> plain_key (month_of t)" by code_simp
  have s: "float_sum (map amount ?ts) = 89 / 2" by code_simp
  have d: "fdiv (89 / 2) (of_nat (length ?ts)) = 89 / 4" by code_simp
  have g: "float_sum (map amount (filter (\<lambda>t. month_of t = ''2024-01'') ?ts)) = 89 / 2"
    by code_simp
  have i: "''2024-01'' \<in> month_of ` set ?ts" by code_simp
  note T = totals_and_groupings [OF h]
  from T have "totalSpent (totals (generateReport ?ts)) = float_sum (map amount ?ts)"
    by (elim conjE)
  with s have A: "totalSpent (totals (generateReport ?ts)) = 89 / 2" by (simp only:)
  from T have "avgSpendPerTxn (totals (generateReport ?ts)) =
        (if ?ts = [] then 0 else fdiv (float_sum (map amount ?ts)) (of_nat (length ?ts)))"
    by (elim conjE)
  then have B: "avgSpendPerTxn (totals (generateReport ?ts)) = 89 / 4"
    unfolding s d by (simp only: list.distinct if_False)
  from T have "\<forall>m\<in>month_of ` set ?ts. obj_get (byMonth (generateReport ?ts)) m =
          Some (float_sum (map amount (filter (\<lambda>t. month_of t = m) ?ts)))"
    by (elim conjE)
  with i have "obj_get (byMonth (generateReport ?ts)) ''2024-01'' =
          Some (float_sum (map amount (filter (\<lambda>t. month_of t = ''2024-01'') ?ts)))"
    by (rule bspec [rotated])
  with g have C: "obj_get (byMonth (generateReport ?ts)) ''2024-01'' = Some (89 / 2)"
    by (simp only:)
  from A B C show ?thesis by (intro conjI)
qed

section \<open>Sorting\<close>

lemma js_insert_insort:
  assumes "\<And>a b. cmp a b \<le> 0 \<longleftrightarrow> key a \<le> key b"
  shows "js_insert cmp x ys = insort_key key x ys"
  by (induction ys) (simp_all add: assms)

lemma js_sort_sort_key:
  assumes "\<And>a b. cmp a b \<le> 0 \<longleftrightarrow> key a \<le> key b"
  shows "js_sort cmp xs = sort_key key xs"
  by (induction xs) (simp_all add: js_sort_def js_insert_insort [OF assms])

lemma str_less_lex: "str_less x y \<longleftrightarrow> map (of_char :: char \<Rightarrow> nat) x < map of_char y"
  by (induction x y rule: str_less.induct) auto

lemma default_cmp_le: "default_cmp x y \<le> 0 \<longleftrightarrow> map (of_char :: char \<Rightarrow> nat) x \<le> map of_char y"
  by (auto simp: default_cmp_def str_less_lex)

lemma default_cmp_sort: "js_sort default_cmp xs = sort_key (map (of_char :: char \<Rightarrow> nat)) xs"
  by (rule js_sort_sort_key) (rule default_cmp_le)

lemma inj_codes: "inj (map (of_char :: char \<Rightarrow> nat))"
  by (rule inj_mapI) (rule inj_of_char)

lemma distinct_obj_keys: "distinct (map fst ob) \<Longrightarrow> distinct (obj_keys ob)"
  by (auto simp: obj_keys_def obj_entries_def distinct_map inj_on_def)

lemma sorted_months_props:
  assumes "distinct (map fst ob)"
  shows "set (sorted_months ob) = fst ` set ob"
    and "length (sorted_months ob) = length ob"
    and "sorted_wrt str_less (sorted_months ob)"
proof -
  let ?K = "map (of_char :: char \<Rightarrow> nat)"
  have ms: "sorted_months ob = sort_key ?K (obj_keys ob)"
    by (simp add: sorted_months_def default_cmp_sort)
  show "set (sorted_months ob) = fst ` set ob" by (simp add: ms)
  show "length (sorted_months ob) = length ob" by (simp add: ms)
  have d: "distinct (sorted_months ob)"
    using assms by (simp add: ms distinct_obj_keys)
  have "sorted (map ?K (sorted_months ob))" unfolding ms by (rule sorted_sort_key)
  moreover have "distinct (map ?K (sorted_months ob))"
    using d inj_codes by (simp add: distinct_map inj_on_def inj_def)
  ultimately have "sorted_wrt (<) (map ?K (sorted_months ob))"
    by (simp add: strict_sorted_iff)
  then show "sorted_wrt str_less (sorted_months ob)"
    by (simp add: sorted_wrt_map str_less_lex [abs_def])
qed

lemma by_month_distinct: "distinct (map fst (by_month ts))"
  by (simp add: by_month_keys)

lemma by_month_spend: "m \<in> month_of ` set ts \<Longrightarrow> obj_get (by_month ts) m = Some (month_spend ts m)"
  by (simp add: by_month_get month_spend_def)

lemma recent_sum:
  assumes "set ms \<subseteq> month_of ` set ts"
  shows "foldl (\<lambda>sum m. fadd sum (the (obj_get (by_month ts) m))) 0 ms =
         float_sum (map (month_spend ts) ms)"
proof -
  have e: "map (\<lambda>m. the (obj_get (by_month ts) m)) ms = map (month_spend ts) ms"
    using assms by (intro map_cong) (auto simp: by_month_spend)
  have "foldl (\<lambda>sum m. fadd sum (the (obj_get (by_month ts) m))) 0 ms =
        foldl fadd 0 (map (\<lambda>m. the (obj_get (by_month ts) m)) ms)"
    by (simp only: foldl_map)
  then show ?thesis by (simp only: e float_sum_def)
qed

text \<open>
  Claim C5. The forecast is absent exactly when fewer than two distinct months occur.
  Otherwise, with the month keys of \<open>byMonth\<close> in ascending order, \<open>nextMonthSpend\<close> is
  the sum of the spend of the last three of them (of both when there are two), added in that
  order in double arithmetic, divided by their number and rounded to the nearest integer;
  the confidence is \<open>High\<close> for three or more months and \<open>Medium\<close> for two; the method is
  the fixed label. (Month keys are assumed not to name a member of \<^verbatim>\<open>Object.prototype\<close>.)
\<close>

theorem forecast_rule:
  assumes "\<forall>t\<in>set ts. plain_key (month_of t)"
  shows "set (sorted_months (byMonth (generateReport ts))) = month_of ` set ts
    \<and> sorted_wrt str_less (sorted_months (byMonth (generateReport ts)))
    \<and> (\<forall>m\<in>month_of ` set ts. obj_get (byMonth (generateReport ts)) m = Some (month_spend ts m))
    \<and> (forecast (generateReport ts) = None \<longleftrightarrow> card (month_of ` set ts) < 2)
    \<and> (2 \<le> card (month_of ` set ts) \<longrightarrow>
         forecast (generateReport ts) =
           Some \<lparr>nextMonthSpend =
                   math_round (fdiv
                     (float_sum (map (month_spend ts)
                        (drop (length (sorted_months (byMonth (generateReport ts))) - 3)
                              (sorted_months (byMonth (generateReport ts))))))
                     (of_nat (length
                        (drop (length (sorted_months (byMonth (generateReport ts))) - 3)
                              (sorted_months (byMonth (generateReport ts))))))),
                 confidence = (if 3 \<le> card (month_of ` set ts) then ''High'' else ''Medium''),
                 fc_method = ''Average of last 3 months''\<rparr>)"
proof (cases "ts = []")
  case True
  then show ?thesis
    by (simp add: report_empty sorted_months_def obj_keys_def obj_entries_def js_sort_def)
next
  case False
  let ?ms = "sorted_months (by_month ts)"
  note P = sorted_months_props [OF by_month_distinct, of ts]
  have s: "set ?ms = month_of ` set ts"
    using P(1) by_month_keys [of ts] by (metis list.set_map set_first_seen)
  have l: "length ?ms = card (month_of ` set ts)"
    using P(2) by (simp add: length_by_month)
  have "set (drop (length ?ms - 3) ?ms) \<subseteq> month_of ` set ts"
    using s set_drop_subset [of "length ?ms - 3" ?ms] by simp
  then have r: "foldl (\<lambda>sum m. fadd sum (the (obj_get (by_month ts) m))) 0 (drop (length ?ms - 3) ?ms) =
         float_sum (map (month_spend ts) (drop (length ?ms - 3) ?ms))"
    by (rule recent_sum)
  have f: "forecast_of (by_month ts) =
     (if 2 \<le> length ?ms then
        Some \<lparr>nextMonthSpend =
                math_round (fdiv (float_sum (map (month_spend ts) (drop (length ?ms - 3) ?ms)))
                           (of_nat (length (drop (length ?ms - 3) ?ms)))),
              confidence = (if 3 \<le> length ?ms then ''High'' else ''Medium''),
              fc_method = ''Average of last 3 months''\<rparr>
      else None)"
    unfolding forecast_of_def Let_def slice_last3_def sorted_months_def [symmetric] r ..
  show ?thesis
    unfolding report_fields [OF False] f l [symmetric]
    using s P(3) by (auto simp: by_month_spend)
qed

theorem forecast_rule_witness:
  "forecast (generateReport
      [\<lparr>date = ''2024-01-05'', merchant = ''B'', amount = 5000, category = ''A'', description = None\<rparr>,
       \<lparr>date = ''2024-02-20'', merchant = ''C'', amount = 5, category = ''Dining'', description = None\<rparr>,
       \<lparr>date = ''2024-03-20'', merchant = ''C'', amount = 5500, category = ''Dining'', description = None\<rparr>,
       \<lparr>date = ''2023-03-20'', merchant = ''C'', amount = 6500, category = ''Dining'', description = None\<rparr>])
    = Some \<lparr>nextMonthSpend = 3502, confidence = ''High'', fc_method = ''Average of last 3 months''\<rparr>"
proof -
  let ?ts = "[\<lparr>date = ''2024-01-05'', merchant = ''B'', amount = 5000, category = ''A'', description = None :: string option\<rparr>,
       \<lparr>date = ''2024-02-20'', merchant = ''C'', amount = 5, category = ''Dining'', description = None\<rparr>,
       \<lparr>date = ''2024-03-20'', merchant = ''C'', amount = 5500, category = ''Dining'', description = None\<rparr>,
       \<lparr>date = ''2023-03-20'', merchant = ''C'', amount = 6500, category = ''Dining'', description = None\<rparr>]"
  have ne: "?ts \<noteq> []" by simp
  have h: "\<forall>t\<in>set ?ts. plain_key (month_of t)" by code_simp
  have c: "card (month_of ` set ?ts) = 4" by code_simp
  have ms: "sorted_months (by_month ?ts) = [''2023-03'', ''2024-01'', ''2024-02'', ''2024-03'']"
    by code_simp
  have v: "math_round (fdiv (float_sum (map (month_spend ?ts) [''2024-01'', ''2024-02'', ''2024-03'']))
               (of_nat (length [''2024-01'', ''2024-02'', ''2024-03'']))) = 3502"
    by code_simp
  from forecast_rule [OF h] have "2 \<le> card (month_of ` set ?ts) \<longrightarrow>
         forecast (generateReport ?ts) =
           Some \<lparr>nextMonthSpend =
                   math_round (fdiv
                     (float_sum (map (month_spend ?ts)
                        (drop (length (sorted_months (byMonth (generateReport ?ts))) - 3)
                              (sorted_months (byMonth (generateReport ?ts))))))
                     (of_nat (length
                        (drop (length (sorted_months (byMonth (generateReport ?ts))) - 3)
                              (sorted_months (byMonth (generateReport ?ts))))))),
                 confidence = (if 3 \<le> card (month_of ` set ?ts) then ''High'' else ''Medium''),
                 fc_method = ''Average of last 3 months''\<rparr>"
    by (elim conjE)
  then show ?thesis
    unfolding report_fields [OF ne] c ms using v by simp
qed

section \<open>Top merchants\<close>

lemma key_in_obj_set: "k \<in> fst ` set (obj_set ob k v)"
  by (induction ob) auto

lemma keys_add_merchant:
  "map fst (add_merchant ob t) =
     (if merchant t \<in> set (map fst ob) then map fst ob else map fst ob @ [merchant t])"
  by (cases "merchant t \<in> set (map fst ob)")
     (simp_all add: add_merchant_def Let_def keys_obj_set obj_get_None_iff key_in_obj_set)

lemma merchant_map_keys: "map fst (merchant_map ts) = first_seen (map merchant ts)"
proof (induction ts rule: rev_induct)
  case Nil
  show ?case by (simp add: merchant_map_def first_seen_def)
next
  case (snoc t ts)
  then show ?case by (simp add: merchant_map_def keys_add_merchant first_seen_snoc)
qed

lemma obj_get_add_merchant:
  "obj_get (add_merchant ob t) k =
     (if k = merchant t
      then Some \<lparr>spent = fadd (case obj_get ob k of None \<Rightarrow> 0 | Some d \<Rightarrow> spent d) (amount t),
                 count = (case obj_get ob k of None \<Rightarrow> 0 | Some d \<Rightarrow> count d) + 1\<rparr>
      else obj_get ob k)"
  by (auto simp: add_merchant_def Let_def obj_get_set split: option.splits)

lemma get_merchants:
  "obj_get (foldl add_merchant ob0 ts) k =
     (if \<exists>t\<in>set ts. merchant t = k
      then Some \<lparr>spent = foldl fadd (case obj_get ob0 k of None \<Rightarrow> 0 | Some d \<Rightarrow> spent d)
                           (map amount (filter (\<lambda>t. merchant t = k) ts)),
                 count = (case obj_get ob0 k of None \<Rightarrow> 0 | Some d \<Rightarrow> count d) +
                           length (filter (\<lambda>t. merchant t = k) ts)\<rparr>
      else obj_get ob0 k)"
proof (induction ts arbitrary: ob0)
  case Nil
  show ?case by simp
next
  case (Cons t ts)
  show ?case
  proof (cases "merchant t = k")
    case True
    then show ?thesis by (simp add: Cons.IH obj_get_add_merchant)
  next
    case False
    then show ?thesis by (simp add: Cons.IH obj_get_add_merchant)
  qed
qed

lemma merchant_map_get:
  "m \<in> merchant ` set ts \<Longrightarrow>
     obj_get (merchant_map ts) m =
       Some \<lparr>spent = float_sum (map amount (filter (\<lambda>t. merchant t = m) ts)),
             count = length (filter (\<lambda>t. merchant t = m) ts)\<rparr>"
  unfolding merchant_map_def get_merchants float_sum_def by (auto simp: obj_get_def)

lemma obj_from_keys:
  "distinct (map fst ob) \<Longrightarrow> ob = map (\<lambda>k. (k, the (obj_get ob k))) (map fst ob)"
proof (induction ob)
  case Nil
  show ?case by simp
next
  case (Cons p ob)
  then have d: "distinct (map fst ob)" and n: "fst p \<notin> set (map fst ob)" by auto
  have 1: "map (\<lambda>k. (k, the (obj_get (p # ob) k))) (map fst ob) =
           map (\<lambda>k. (k, the (obj_get ob k))) (map fst ob)"
  proof (intro map_cong refl)
    fix k assume "k \<in> set (map fst ob)"
    with n have "k \<noteq> fst p" by blast
    then show "(k, the (obj_get (p # ob) k)) = (k, the (obj_get ob k))"
      by (simp add: obj_get_def)
  qed
  have 2: "map (\<lambda>k. (k, the (obj_get ob k))) (map fst ob) = ob"
    by (rule Cons.IH [OF d, symmetric])
  have 3: "(fst p, the (obj_get (p # ob) (fst p))) = p"
    by (simp add: obj_get_def)
  have "map (\<lambda>k. (k, the (obj_get (p # ob) k))) (map fst (p # ob)) =
        (fst p, the (obj_get (p # ob) (fst p))) #
          map (\<lambda>k. (k, the (obj_get (p # ob) k))) (map fst ob)"
    by simp
  also have "\<dots> = p # ob" by (simp only: 1 2 3)
  finally show ?case by (rule sym)
qed

lemma insort_key_map: "insort_key f (g x) (map g xs) = map g (insort_key (\<lambda>x. f (g x)) x xs)"
  by (induction xs) auto

lemma sort_key_map: "sort_key f (map g xs) = map g (sort_key (\<lambda>x. f (g x)) xs)"
  by (induction xs) (auto simp: insort_key_map)

lemma obj_entries_map:
  "obj_entries (map (\<lambda>k. (k, v k)) ks) = map (\<lambda>k. (k, v k)) (enumeration_order ks)"
  by (simp add: obj_entries_def enumeration_order_def filter_map o_def sort_key_map)

lemma merchant_entries:
  "map (\<lambda>p. \<lparr>tm_merchant = fst p, tm_spent = spent (snd p), tm_count = count (snd p)\<rparr>)
       (obj_entries (merchant_map ts)) =
   map (merchant_entry ts) (enumeration_order (first_seen (map merchant ts)))"
proof -
  let ?ks = "first_seen (map merchant ts)"
  let ?v = "\<lambda>k. the (obj_get (merchant_map ts) k)"
  have "distinct (map fst (merchant_map ts))" by (simp add: merchant_map_keys)
  from obj_from_keys [OF this] have ob: "merchant_map ts = map (\<lambda>k. (k, ?v k)) ?ks"
    by (simp add: merchant_map_keys)
  have e: "obj_entries (merchant_map ts) = map (\<lambda>k. (k, ?v k)) (enumeration_order ?ks)"
    by (subst ob) (rule obj_entries_map)
  have "set (enumeration_order ?ks) = merchant ` set ts"
    by (auto simp: enumeration_order_def)
  then show ?thesis
    unfolding e by (auto simp: merchant_entry_def merchant_map_get)
qed

lemma spent_cmp: "fsub (tm_spent b) (tm_spent a) \<le> 0 \<longleftrightarrow> - tm_spent a \<le> - tm_spent b"
  by (simp add: fsub_le_zero_iff)

lemma top_merchants_sort:
  "top_merchants ts =
     take 10 (sort_key (\<lambda>e. - tm_spent e)
       (map (merchant_entry ts) (enumeration_order (first_seen (map merchant ts)))))"
  unfolding top_merchants_def slice_first10_def merchant_entries
  by (simp add: js_sort_sort_key [where key = "\<lambda>e. - tm_spent e"] spent_cmp)

lemma distinct_map_sort_key: "distinct (map g (sort_key f xs)) = distinct (map g xs)"
  by (simp add: distinct_map)

lemma enumeration_order_plain:
  "\<forall>k\<in>set ks. \<not> is_array_index k \<Longrightarrow> enumeration_order ks = ks"
  by (simp add: enumeration_order_def filter_empty_conv [THEN iffD2])


text \<open>
  Claim C8, as stated, fails in its tie-break: a merchant whose name is an array index, here
  \<open>7\<close>, is enumerated before every other merchant whatever the input order, so with equal
  spent it comes before \<open>B\<close>, which was encountered first.
\<close>

theorem tie_order_is_not_first_seen:
  "map tm_merchant (topMerchants (generateReport
      [\<lparr>date = ''2024-01-05'', merchant = ''B'', amount = 5, category = ''A'', description = None\<rparr>,
       \<lparr>date = ''2024-01-06'', merchant = ''7'', amount = 5, category = ''A'', description = None\<rparr>]))
     = [''7'', ''B'']
   \<and> map tm_spent (topMerchants (generateReport
      [\<lparr>date = ''2024-01-05'', merchant = ''B'', amount = 5, category = ''A'', description = None\<rparr>,
       \<lparr>date = ''2024-01-06'', merchant = ''7'', amount = 5, category = ''A'', description = None\<rparr>]))
     = [5, 5]
   \<and> first_seen (map merchant
      [\<lparr>date = ''2024-01-05'', merchant = ''B'', amount = 5, category = ''A'', description = None\<rparr>,
       \<lparr>date = ''2024-01-06'', merchant = ''7'', amount = 5, category = ''A'', description = None\<rparr>])
     = [''B'', ''7'']"
proof -
  let ?ts = "[\<lparr>date = ''2024-01-05'', merchant = ''B'', amount = 5, category = ''A'', description = None :: string option\<rparr>,
       \<lparr>date = ''2024-01-06'', merchant = ''7'', amount = 5, category = ''A'', description = None\<rparr>]"
  have ne: "?ts \<noteq> []" by simp
  have t: "top_merchants ?ts = [\<lparr>tm_merchant = ''7'', tm_spent = 5, tm_count = 1\<rparr>,
                               \<lparr>tm_merchant = ''B'', tm_spent = 5, tm_count = 1\<rparr>]"
    by code_simp
  have f: "first_seen (map merchant ?ts) = [''B'', ''7'']" by code_simp
  show ?thesis unfolding report_fields [OF ne] t f by simp
qed

text \<open>
  Claim C8, amended. \<open>topMerchants\<close> has one entry for each merchant, holding the sum of
  the amounts of its transactions (added in input order in double arithmetic) and their
  number; it is sorted non-increasing by spent and has at most 10 entries. The sort is
  stable with respect to the order in which the merchant map enumerates its keys: entries
  with equal spent keep that order, in which merchants whose name is an array index come
  first, in ascending numeric order, followed by all other merchants in the order in which
  they were first encountered. When no merchant name is an array index, ties keep the order
  of first encounter. (Merchant names are assumed not to name a member of
  \<^verbatim>\<open>Object.prototype\<close>.)
\<close>

theorem top_merchants_rule:
  assumes "\<forall>t\<in>set ts. plain_key (merchant t)"
  shows "topMerchants (generateReport ts) =
           take 10 (sort_key (\<lambda>e. - tm_spent e)
             (map (merchant_entry ts) (enumeration_order (first_seen (map merchant ts)))))
    \<and> sorted_wrt (\<lambda>a b. tm_spent b \<le> tm_spent a) (topMerchants (generateReport ts))
    \<and> length (topMerchants (generateReport ts)) \<le> 10
    \<and> (\<forall>e\<in>set (topMerchants (generateReport ts)).
          tm_merchant e \<in> merchant ` set ts \<and> e = merchant_entry ts (tm_merchant e))
    \<and> distinct (map tm_merchant (topMerchants (generateReport ts)))
    \<and> (\<forall>s. filter (\<lambda>e. tm_spent e = s)
              (sort_key (\<lambda>e. - tm_spent e)
                 (map (merchant_entry ts) (enumeration_order (first_seen (map merchant ts))))) =
            filter (\<lambda>e. tm_spent e = s)
              (map (merchant_entry ts) (enumeration_order (first_seen (map merchant ts)))))
    \<and> ((\<forall>t\<in>set ts. \<not> is_array_index (merchant t)) \<longrightarrow>
          enumeration_order (first_seen (map merchant ts)) = first_seen (map merchant ts))"
proof -
  let ?ks = "enumeration_order (first_seen (map merchant ts))"
  let ?L = "sort_key (\<lambda>e. - tm_spent e) (map (merchant_entry ts) ?ks)"
  have top: "topMerchants (generateReport ts) = take 10 ?L"
  proof (cases "ts = []")
    case True
    then show ?thesis
      by (simp add: report_empty first_seen_def enumeration_order_def)
  next
    case False
    then show ?thesis by (simp add: report_fields top_merchants_sort)
  qed
  have ks: "set ?ks = merchant ` set ts" "distinct ?ks"
    by (auto simp: enumeration_order_def)
  have "sorted (map (\<lambda>e. - tm_spent e) ?L)" by (rule sorted_sort_key)
  then have "sorted_wrt (\<lambda>a b. tm_spent b \<le> tm_spent a) ?L"
    by (simp add: sorted_wrt_map)
  then have srt: "sorted_wrt (\<lambda>a b. tm_spent b \<le> tm_spent a) (take 10 ?L)"
    by (rule sorted_wrt_take)
  have mem: "\<forall>e\<in>set ?L. tm_merchant e \<in> merchant ` set ts \<and> e = merchant_entry ts (tm_merchant e)"
    using ks(1) by (auto simp: merchant_entry_def)
  have "map tm_merchant (map (merchant_entry ts) ?ks) = ?ks"
    by (simp add: merchant_entry_def o_def)
  then have "distinct (map tm_merchant (map (merchant_entry ts) ?ks))"
    using ks(2) by simp
  then have "distinct (map tm_merchant ?L)"
    by (simp only: distinct_map_sort_key)
  then have dst: "distinct (map tm_merchant (take 10 ?L))"
    by (simp add: take_map [symmetric] distinct_take)
  have stable: "filter (\<lambda>e. tm_spent e = s) ?L =
                filter (\<lambda>e. tm_spent e = s) (map (merchant_entry ts) ?ks)" for s
    using sort_key_stable [of "\<lambda>e. - tm_spent e" "- s" "map (merchant_entry ts) ?ks"]
    by simp
  have plain: "(\<forall>t\<in>set ts. \<not> is_array_index (merchant t)) \<longrightarrow>
          enumeration_order (first_seen (map merchant ts)) = first_seen (map merchant ts)"
    by (auto intro!: enumeration_order_plain)
  have mem': "\<forall>e\<in>set (take 10 ?L). tm_merchant e \<in> merchant ` set ts \<and> e = merchant_entry ts (tm_merchant e)"
    using mem by (meson in_set_takeD)
  show ?thesis
    unfolding top using srt mem' dst stable plain by simp
qed

theorem top_merchants_rule_witness:
  "topMerchants (generateReport
      [\<lparr>date = ''2024-01-05'', merchant = ''Starbucks'', amount = 9 / 2, category = ''Dining'', description = None\<rparr>,
       \<lparr>date = ''2024-01-20'', merchant = ''Shell Gas'', amount = 40, category = ''Transport'', description = None\<rparr>,
       \<lparr>date = ''2024-01-21'', merchant = ''Starbucks'', amount = 3, category = ''Dining'', description = None\<rparr>])
    = [\<lparr>tm_merchant = ''Shell Gas'', tm_spent = 40, tm_count = 1\<rparr>,
       \<lparr>tm_merchant = ''Starbucks'', tm_spent = 15 / 2, tm_count = 2\<rparr>]"
proof -
  let ?ts = "[\<lparr>date = ''2024-01-05'', merchant = ''Starbucks'', amount = 9 / 2, category = ''Dining'', description = None :: string option\<rparr>,
       \<lparr>date = ''2024-01-20'', merchant = ''Shell Gas'', amount = 40, category = ''Transport'', description = None\<rparr>,
       \<lparr>date = ''2024-01-21'', merchant = ''Starbucks'', amount = 3, category = ''Dining'', description = None\<rparr>]"
  have h: "\<forall>t\<in>set ?ts. plain_key (merchant t)" by code_simp
  have v: "take 10 (sort_key (\<lambda>e. - tm_spent e)
             (map (merchant_entry ?ts) (enumeration_order (first_seen (map merchant ?ts)))))
         = [\<lparr>tm_merchant = ''Shell Gas'', tm_spent = 40, tm_count = 1\<rparr>,
            \<lparr>tm_merchant = ''Starbucks'', tm_spent = 15 / 2, tm_count = 2\<rparr>]"
    by code_simp
  from top_merchants_rule [OF h]
  have "topMerchants (generateReport ?ts) =
           take 10 (sort_key (\<lambda>e. - tm_spent e)
             (map (merchant_entry ?ts) (enumeration_order (first_seen (map merchant ?ts)))))"
    by (elim conjE)
  then show ?thesis by (simp only: v)
qed

section \<open>What report generation writes\<close>

lemma txn_at_append [simp]: "x < length h \<Longrightarrow> txn_at (h @ ys) x = txn_at h x"
  by (simp add: txn_at_def nth_append)

lemma txn_at_update [simp]: "x \<noteq> p \<Longrightarrow> txn_at (h[p := v]) x = txn_at h x"
  by (simp add: txn_at_def)

lemma map_txn_at_append: "\<forall>x\<in>set xs. x < length h \<Longrightarrow> map (txn_at (h @ ys)) xs = map (txn_at h) xs"
  by (induction xs) auto

lemma map_txn_at_update: "\<forall>x\<in>set xs. x \<noteq> p \<Longrightarrow> map (txn_at (h[p := v])) xs = map (txn_at h) xs"
  by (induction xs) auto

text \<open>
  A loop that reads transactions and assigns to the one object at \<open>p\<close> leaves the store
  as it is but for that object, which ends as the fold of the loop body.
\<close>

lemma loop_on_object:
  assumes F: "\<And>h x. F h x = G (h ! p) (txn_at h x)"
    and "\<forall>x\<in>set xs. x \<noteq> p" and "p < length h"
  shows "foldl (\<lambda>h x. h[p := F h x]) h xs = h[p := foldl G (h ! p) (map (txn_at h) xs)]"
  using assms(2,3)
proof (induction xs arbitrary: h)
  case Nil
  then show ?case by simp
next
  case (Cons x xs)
  let ?h1 = "h[p := F h x]"
  from Cons.prems have xs: "\<forall>x\<in>set xs. x \<noteq> p" and x: "x \<noteq> p" and p: "p < length ?h1"
    by auto
  have "foldl (\<lambda>h x. h[p := F h x]) h (x # xs) = foldl (\<lambda>h x. h[p := F h x]) ?h1 xs"
    by simp
  also have "\<dots> = ?h1[p := foldl G (?h1 ! p) (map (txn_at ?h1) xs)]"
    using xs p by (rule Cons.IH)
  also have "?h1 ! p = G (h ! p) (txn_at h x)"
    using Cons.prems(2) by (simp add: F)
  also have "map (txn_at ?h1) xs = map (txn_at h) xs"
    using xs by (rule map_txn_at_update)
  finally show ?case by simp
qed

lemma fold_num_obj:
  "foldl (\<lambda>v t. HNumObj (add_to (case v of HNumObj ob \<Rightarrow> ob | _ \<Rightarrow> []) (key t) (amount t)))
         (HNumObj ob) ts =
   HNumObj (foldl (\<lambda>ob t. add_to ob (key t) (amount t)) ob ts)"
  by (induction ts arbitrary: ob) simp_all

lemma fold_merch_obj:
  "foldl (\<lambda>v t. HMerchObj (add_merchant (case v of HMerchObj ob \<Rightarrow> ob | _ \<Rightarrow> []) t))
         (HMerchObj ob) ts =
   HMerchObj (foldl add_merchant ob ts)"
  by (induction ts arbitrary: ob) simp_all

lemma by_category_st_eq:
  assumes "\<forall>x\<in>set xs. x < length h"
  shows "by_category_st xs h = (length h, h @ [HNumObj (by_category (map (txn_at h) xs))])"
proof -
  let ?p = "length h"
  let ?h1 = "h @ [HNumObj []]"
  let ?G = "\<lambda>v t. HNumObj (add_to (case v of HNumObj ob \<Rightarrow> ob | _ \<Rightarrow> []) (category t) (amount t))"
  have "foldl (\<lambda>h x. h[?p := HNumObj (add_to (num_obj h ?p) (category (txn_at h x)) (amount (txn_at h x)))]) ?h1 xs
        = ?h1[?p := foldl ?G (?h1 ! ?p) (map (txn_at ?h1) xs)]"
    using assms by (intro loop_on_object) (auto simp: num_obj_def)
  also have "\<dots> = h @ [HNumObj (by_category (map (txn_at h) xs))]"
    using assms by (simp add: map_txn_at_append fold_num_obj by_category_def)
  finally show ?thesis
    by (simp add: by_category_st_def alloc_def Let_def)
qed

lemma by_month_st_eq:
  assumes "\<forall>x\<in>set xs. x < length h"
  shows "by_month_st xs h = (length h, h @ [HNumObj (by_month (map (txn_at h) xs))])"
proof -
  let ?p = "length h"
  let ?h1 = "h @ [HNumObj []]"
  let ?G = "\<lambda>v t. HNumObj (add_to (case v of HNumObj ob \<Rightarrow> ob | _ \<Rightarrow> []) (take 7 (date t)) (amount t))"
  have "foldl (\<lambda>h x. h[?p := HNumObj (add_to (num_obj h ?p) (take 7 (date (txn_at h x))) (amount (txn_at h x)))]) ?h1 xs
        = ?h1[?p := foldl ?G (?h1 ! ?p) (map (txn_at ?h1) xs)]"
    using assms by (intro loop_on_object) (auto simp: num_obj_def)
  also have "\<dots> = h @ [HNumObj (by_month (map (txn_at h) xs))]"
    using assms by (simp add: map_txn_at_append fold_num_obj by_month_def Let_def)
  finally show ?thesis
    by (simp add: by_month_st_def alloc_def Let_def)
qed

lemma merchant_map_st_eq:
  assumes "\<forall>x\<in>set xs. x < length h"
  shows "merchant_map_st xs h = (length h, h @ [HMerchObj (merchant_map (map (txn_at h) xs))])"
proof -
  let ?p = "length h"
  let ?h1 = "h @ [HMerchObj []]"
  let ?G = "\<lambda>v t. HMerchObj (add_merchant (case v of HMerchObj ob \<Rightarrow> ob | _ \<Rightarrow> []) t)"
  have "foldl (\<lambda>h x. h[?p := HMerchObj (add_merchant (merch_obj h ?p) (txn_at h x))]) ?h1 xs
        = ?h1[?p := foldl ?G (?h1 ! ?p) (map (txn_at ?h1) xs)]"
    using assms by (intro loop_on_object) (auto simp: merch_obj_def)
  also have "\<dots> = h @ [HMerchObj (merchant_map (map (txn_at h) xs))]"
    using assms by (simp add: map_txn_at_append fold_merch_obj merchant_map_def)
  finally show ?thesis
    by (simp add: merchant_map_st_def alloc_def)
qed

lemma loop_on_object_vals:
  assumes F: "\<And>h x. F h x = G (h ! p) x" and "p < length h"
  shows "foldl (\<lambda>h x. h[p := F h x]) h xs = h[p := foldl G (h ! p) xs]"
  using assms(2)
proof (induction xs arbitrary: h)
  case Nil
  then show ?case by simp
next
  case (Cons x xs)
  let ?h1 = "h[p := F h x]"
  from Cons.prems have p: "p < length ?h1" by simp
  have "foldl (\<lambda>h x. h[p := F h x]) h (x # xs) = foldl (\<lambda>h x. h[p := F h x]) ?h1 xs"
    by simp
  also have "\<dots> = ?h1[p := foldl G (?h1 ! p) xs]"
    using p by (rule Cons.IH)
  also have "?h1 ! p = G (h ! p) x"
    using Cons.prems by (simp add: F)
  finally show ?case by simp
qed

lemma fold_budget_obj:
  "foldl (\<lambda>v e. HNumObj (obj_set (case v of HNumObj ob \<Rightarrow> ob | _ \<Rightarrow> []) (fst e) (g e)))
         (HNumObj ob) es =
   HNumObj (foldl (\<lambda>ob e. obj_set ob (fst e) (g e)) ob es)"
  by (induction es arbitrary: ob) simp_all

lemma num_obj_append [simp]: "p < length h \<Longrightarrow> num_obj (h @ ys) p = num_obj h p"
  by (simp add: num_obj_def nth_append)

lemma budget_st_eq:
  assumes "pc < length h"
  shows "budget_st pc h = (length h, h @ [HNumObj (budget_of (num_obj h pc))])"
proof -
  let ?p = "length h"
  let ?h1 = "h @ [HNumObj []]"
  let ?es = "obj_entries (num_obj h pc)"
  let ?G = "\<lambda>v e. HNumObj (obj_set (case v of HNumObj ob \<Rightarrow> ob | _ \<Rightarrow> []) (fst e)
                         (math_ceil (fmul (snd e) (fl (11 / 10)))))"
  have "foldl (\<lambda>h e. h[?p := HNumObj (obj_set (num_obj h ?p) (fst e)
                                    (math_ceil (fmul (snd e) (fl (11 / 10)))))]) ?h1 ?es
        = ?h1[?p := foldl ?G (?h1 ! ?p) ?es]"
    by (intro loop_on_object_vals) (auto simp: num_obj_def)
  also have "\<dots> = h @ [HNumObj (budget_of (num_obj h pc))]"
    by (simp add: fold_budget_obj budget_of_def)
  finally show ?thesis
    using assms by (simp add: budget_st_def alloc_def)
qed

lemma months_st_eq:
  "months_st pm h = (length h, h @ [HStrArr (js_sort default_cmp (obj_keys (num_obj h pm)))])"
  by (simp add: months_st_def alloc_def str_arr_def)

lemma dates_st_eq:
  "dates_st xs h =
     (length h, h @ [HStrArr (js_sort default_cmp (map date (map (txn_at h) xs)))])"
  by (simp add: dates_st_def alloc_def str_arr_def o_def)

lemma top_merchants_st_eq:
  "top_merchants_st pmm h =
     (Suc (length h),
      h @ [HEntArr (js_sort (\<lambda>a b. fsub (tm_spent b) (tm_spent a))
             (map (\<lambda>p. \<lparr>tm_merchant = fst p, tm_spent = spent (snd p), tm_count = count (snd p)\<rparr>)
                  (obj_entries (merch_obj h pmm)))),
           HEntArr (slice_first10 (js_sort (\<lambda>a b. fsub (tm_spent b) (tm_spent a))
             (map (\<lambda>p. \<lparr>tm_merchant = fst p, tm_spent = spent (snd p), tm_count = count (snd p)\<rparr>)
                  (obj_entries (merch_obj h pmm)))))])"
  by (simp add: top_merchants_st_def alloc_def ent_arr_def Let_def)

text \<open>The steps on a store that extends \<open>h\<close> by the objects \<open>L\<close>.\<close>

lemma by_category_st_app:
  assumes "\<forall>x\<in>set xs. x < length h"
  shows "by_category_st xs (h @ L) =
           (length (h @ L), h @ L @ [HNumObj (by_category (map (txn_at h) xs))])"
proof -
  from assms have "\<forall>x\<in>set xs. x < length (h @ L)" by auto
  from by_category_st_eq [OF this] assms show ?thesis by (simp add: map_txn_at_append)
qed

lemma by_month_st_app:
  assumes "\<forall>x\<in>set xs. x < length h"
  shows "by_month_st xs (h @ L) =
           (length (h @ L), h @ L @ [HNumObj (by_month (map (txn_at h) xs))])"
proof -
  from assms have "\<forall>x\<in>set xs. x < length (h @ L)" by auto
  from by_month_st_eq [OF this] assms show ?thesis by (simp add: map_txn_at_append)
qed

lemma merchant_map_st_app:
  assumes "\<forall>x\<in>set xs. x < length h"
  shows "merchant_map_st xs (h @ L) =
           (length (h @ L), h @ L @ [HMerchObj (merchant_map (map (txn_at h) xs))])"
proof -
  from assms have "\<forall>x\<in>set xs. x < length (h @ L)" by auto
  from merchant_map_st_eq [OF this] assms show ?thesis by (simp add: map_txn_at_append)
qed

lemma dates_st_app:
  assumes "\<forall>x\<in>set xs. x < length h"
  shows "dates_st xs (h @ L) =
     (length (h @ L), h @ L @ [HStrArr (js_sort default_cmp (map date (map (txn_at h) xs)))])"
  using assms by (simp add: dates_st_eq map_txn_at_append)

lemma forecast_st_app:
  assumes "pm < length h" and "str_arr h pk = js_sort default_cmp (obj_keys (num_obj h pm))"
  shows "forecast_st pk pm h =
     (forecast_of (num_obj h pm),
      h @ (if 2 \<le> length (str_arr h pk) then [HStrArr (slice_last3 (str_arr h pk))] else []))"
  using assms
  by (simp add: forecast_st_def forecast_of_def alloc_def Let_def str_arr_def)


lemma generateReport_st_eq:
  assumes "wf_input h a"
  shows "\<exists>new. generateReport_st a h = (generateReport (read_txns h a), h @ new)"
proof -
  define xs where "xs = txn_arr h a"
  define ts where "ts = map (txn_at h) xs"
  have lt: "\<forall>x\<in>set xs. x < length h"
    using assms by (auto simp: wf_input_def xs_def txn_arr_def list_all_iff split: hval.splits)
  have rd: "read_txns h a = ts" by (simp add: read_txns_def ts_def xs_def)
  show ?thesis
  proof (cases "xs = []")
    case True
    then have "generateReport_st a h = (generateReport (read_txns h a), h @ [])"
      unfolding rd by (simp add: generateReport_st_def generateReport_def xs_def [symmetric] ts_def)
    then show ?thesis by blast
  next
    case False
    then have ne: "ts \<noteq> []" by (simp add: ts_def)
    define C where "C = HNumObj (by_category ts)"
    define M where "M = HNumObj (by_month ts)"
    define MM where "MM = HMerchObj (merchant_map ts)"
    define S where "S = js_sort (\<lambda>a b. fsub (tm_spent b) (tm_spent a))
             (map (\<lambda>p. \<lparr>tm_merchant = fst p, tm_spent = spent (snd p), tm_count = count (snd p)\<rparr>)
                  (obj_entries (merchant_map ts)))"
    define B where "B = HNumObj (budget_of (by_category ts))"
    define K where "K = js_sort default_cmp (obj_keys (by_month ts))"
    define R where "R = (if 2 \<le> length K then [HStrArr (slice_last3 K)] else [])"
    define D where "D = js_sort default_cmp (map date ts)"
    have c: "by_category_st xs h = (length h, h @ [C])"
      using by_category_st_app [OF lt, of "[]"] by (simp add: C_def ts_def)
    have m: "by_month_st xs (h @ [C]) = (Suc (length h), h @ [C, M])"
      using by_month_st_app [OF lt, of "[C]"] by (simp add: M_def ts_def)
    have mm: "merchant_map_st xs (h @ [C, M]) = (Suc (Suc (length h)), h @ [C, M, MM])"
      using merchant_map_st_app [OF lt, of "[C, M]"] by (simp add: MM_def ts_def)
    have t: "top_merchants_st (Suc (Suc (length h))) (h @ [C, M, MM]) =
               (length h + 4, h @ [C, M, MM, HEntArr S, HEntArr (slice_first10 S)])"
      by (simp add: top_merchants_st_eq merch_obj_def nth_append MM_def S_def)
    have b: "budget_st (length h) (h @ [C, M, MM, HEntArr S, HEntArr (slice_first10 S)]) =
               (length h + 5, h @ [C, M, MM, HEntArr S, HEntArr (slice_first10 S), B])"
      by (simp add: budget_st_eq num_obj_def nth_append C_def B_def)
    have k: "months_st (Suc (length h)) (h @ [C, M, MM, HEntArr S, HEntArr (slice_first10 S), B]) =
               (length h + 6, h @ [C, M, MM, HEntArr S, HEntArr (slice_first10 S), B, HStrArr K])"
      by (simp add: months_st_eq num_obj_def nth_append M_def K_def)
    have f: "forecast_st (length h + 6) (Suc (length h))
               (h @ [C, M, MM, HEntArr S, HEntArr (slice_first10 S), B, HStrArr K]) =
               (forecast_of (by_month ts),
                h @ [C, M, MM, HEntArr S, HEntArr (slice_first10 S), B, HStrArr K] @ R)"
      by (subst forecast_st_app)
         (simp_all add: num_obj_def str_arr_def nth_append M_def K_def R_def)
    have d: "dates_st xs (h @ C # M # MM # HEntArr S # HEntArr (slice_first10 S) # B # HStrArr K # R) =
               (length h + 7 + length R,
                h @ [C, M, MM, HEntArr S, HEntArr (slice_first10 S), B, HStrArr K] @ R @ [HStrArr D])"
      using dates_st_app [OF lt, of "[C, M, MM, HEntArr S, HEntArr (slice_first10 S), B, HStrArr K] @ R"]
      by (simp add: D_def ts_def)
    have len: "length xs = length ts" by (simp add: ts_def)
    have tot: "foldl (\<lambda>sum x. fadd sum (amount (txn_at h x))) 0 xs = total_spent ts"
      by (simp add: total_spent_def ts_def foldl_map)
    have "generateReport_st a h =
            (generateReport ts,
             h @ ([C, M, MM, HEntArr S, HEntArr (slice_first10 S), B, HStrArr K] @ R @ [HStrArr D]))"
      unfolding generateReport_st_def xs_def [symmetric] Let_def
      using False ne len
      apply (simp add: c m mm t b k f d tot)
      apply (simp add: generateReport_def Let_def num_obj_def ent_arr_def str_arr_def nth_append
          C_def M_def B_def top_merchants_def S_def period_of_def D_def)
      done
    then show ?thesis unfolding rd by blast
  qed
qed

text \<open>
  Claim C10. \<open>generateReport\<close> does not write to its input. On a store in which the
  argument is an array of transaction objects, the store after the call extends the store
  before it: the array is the same object with the same elements in the same order, every
  transaction object is unchanged in all its fields, and all that the call does to the
  store is to allocate new objects. The report it returns is the report of the first model,
  \<open>generateReport\<close>, for the transactions of the array.
\<close>

theorem generateReport_leaves_input_unchanged:
  assumes "wf_input h a"
  shows "extends h (snd (generateReport_st a h))
    \<and> snd (generateReport_st a h) ! a = h ! a
    \<and> (\<forall>x\<in>set (txn_arr h a). snd (generateReport_st a h) ! x = h ! x)
    \<and> read_txns (snd (generateReport_st a h)) a = read_txns h a
    \<and> fst (generateReport_st a h) = generateReport (read_txns h a)"
proof -
  from generateReport_st_eq [OF assms] obtain new
    where eq: "generateReport_st a h = (generateReport (read_txns h a), h @ new)"
    by blast
  have a: "a < length h" using assms by (simp add: wf_input_def)
  have lt: "\<forall>x\<in>set (txn_arr h a). x < length h"
    using assms by (auto simp: wf_input_def txn_arr_def list_all_iff split: hval.splits)
  have arr: "txn_arr (h @ new) a = txn_arr h a"
    using a by (simp add: txn_arr_def nth_append)
  have "read_txns (h @ new) a = read_txns h a"
    unfolding read_txns_def arr using lt by (rule map_txn_at_append)
  with a lt show ?thesis
    by (simp add: eq extends_def nth_append)
qed

theorem generateReport_leaves_input_unchanged_witness:
  "wf_input
     [HTxn \<lparr>date = ''2024-01-20'', merchant = ''Shell Gas'', amount = 40, category = ''Transport'',
            description = None\<rparr>,
      HTxn \<lparr>date = ''2024-01-05'', merchant = ''Starbucks'', amount = 9 / 2, category = ''Dining'',
            description = None\<rparr>,
      HTxnArr [0, 1]] 2
   \<and> read_txns (snd (generateReport_st 2
     [HTxn \<lparr>date = ''2024-01-20'', merchant = ''Shell Gas'', amount = 40, category = ''Transport'',
            description = None\<rparr>,
      HTxn \<lparr>date = ''2024-01-05'', merchant = ''Starbucks'', amount = 9 / 2, category = ''Dining'',
            description = None\<rparr>,
      HTxnArr [0, 1]])) 2 =
     [\<lparr>date = ''2024-01-20'', merchant = ''Shell Gas'', amount = 40, category = ''Transport'',
            description = None\<rparr>,
      \<lparr>date = ''2024-01-05'', merchant = ''Starbucks'', amount = 9 / 2, category = ''Dining'',
            description = None\<rparr>]"
proof -
  let ?h = "[HTxn \<lparr>date = ''2024-01-20'', merchant = ''Shell Gas'', amount = 40, category = ''Transport'',
            description = None\<rparr>,
      HTxn \<lparr>date = ''2024-01-05'', merchant = ''Starbucks'', amount = 9 / 2, category = ''Dining'',
            description = None\<rparr>,
      HTxnArr [0, 1]]"
  have w: "wf_input ?h 2" by code_simp
  have r: "read_txns ?h 2 =
     [\<lparr>date = ''2024-01-20'', merchant = ''Shell Gas'', amount = 40, category = ''Transport'',
            description = None\<rparr>,
      \<lparr>date = ''2024-01-05'', merchant = ''Starbucks'', amount = 9 / 2, category = ''Dining'',
            description = None\<rparr>]"
    by code_simp
  from generateReport_leaves_input_unchanged [OF w]
  have "read_txns (snd (generateReport_st 2 ?h)) 2 = read_txns ?h 2" by (elim conjE)
  with w r show ?thesis by (simp only: simp_thms)
qed

end
